theory Spec2Isabelle
  imports Complex_Main "HOL-Library.AList"
begin

section \<open>Conventions of the embedding\<close>

text \<open>
  The Go sources are embedded shallowly.
  \<^item> A Go \<^verbatim>\<open>map[K]V\<close> is an association list \<open>('k \<times> 'v) list\<close>: a lookup is
    \<^const>\<open>map_of\<close>, an assignment \<^verbatim>\<open>m[k] = v\<close> is \<^const>\<open>AList.update\<close>, \<^verbatim>\<open>delete(m, k)\<close> is
    \<^const>\<open>AList.delete\<close>, and a \<^verbatim>\<open>range\<close> loop runs over the entries in list order (Go leaves
    the order open; list order is one of the orders Go may take). A list stands for a Go map
    when its keys are distinct; then \<^verbatim>\<open>len(m)\<close> is its length. The three operations keep the
    keys distinct.
  \<^item> A \<^verbatim>\<open>float64\<close> is a \<^typ>\<open>real\<close>: the arithmetic is exact, rounding is not modelled.
  \<^item> A Go result pair \<^verbatim>\<open>(value, error)\<close> of which the callers read the value only when the
    error is nil is a sum, \<open>Inl\<close> carrying the error.
  \<^item> Isabelle record fields share one name space, so where two Go structs have fields of
    the same name, the fields of one of them carry a short prefix.
\<close>

section \<open>internal/monitor: power attribution for virtual machines\<close>

subsection \<open>Data\<close>

text \<open>
  The types \<^verbatim>\<open>Energy\<close>, \<^verbatim>\<open>Power\<close>, \<^verbatim>\<open>Usage\<close>, \<^verbatim>\<open>Snapshot\<close> and the monitor's \<^verbatim>\<open>VirtualMachine\<close> are
  declared outside the files at hand; their fields are the ones \<^verbatim>\<open>vm.go\<close> reads and writes.
  The representation of \<^verbatim>\<open>Energy\<close> is left open: it is a type \<open>'e\<close> with a zero and an
  addition, and the two conversions the code writes, \<^verbatim>\<open>Energy(x)\<close> of a \<^verbatim>\<open>float64\<close> and
  \<^verbatim>\<open>float64(e)\<close> of an \<^verbatim>\<open>Energy\<close>, are parameters of the functions below.
\<close>

type_synonym zone = string

record 'e Usage =
  Power :: real
  Delta :: 'e
  Absolute :: 'e

type_synonym 'e ZoneUsageMap = "(zone \<times> 'e Usage) list"

record 'e Node =
  Zones :: "'e ZoneUsageMap"

text \<open>The monitor's \<^verbatim>\<open>VirtualMachine\<close> (fields prefixed \<open>vm_\<close>).\<close>

record 'e VirtualMachinePower =
  vm_ID :: string
  vm_Name :: string
  vm_Hypervisor :: string
  vm_CPUTotalTime :: real
  vm_Zones :: "'e ZoneUsageMap"

record 'e Snapshot =
  Node :: "'e Node"
  VirtualMachines :: "(string \<times> 'e VirtualMachinePower) list"

text \<open>
  Modelled from the spec: the type \<^verbatim>\<open>Power\<close> and its method \<^verbatim>\<open>MicroWatts\<close> are declared
  outside the files at hand. The spec computes with a zone's power as a plain number
  (\<^verbatim>\<open>entity.Zone.Power = ratio \<times> nodeZone.Power\<close>), so a \<^verbatim>\<open>Power\<close> is a \<^typ>\<open>real\<close>, the
  conversion \<^verbatim>\<open>Power(x)\<close> is the identity and \<^verbatim>\<open>MicroWatts\<close> reads the stored number.
\<close>

definition MicroWatts :: "real \<Rightarrow> real" where
  "MicroWatts p = p"

subsection \<open>The resource informer's view, as the monitor reads it\<close>

text \<open>
  \<^verbatim>\<open>Processes\<close>, \<^verbatim>\<open>Containers\<close> and \<^verbatim>\<open>VirtualMachines\<close> of \<^verbatim>\<open>informer.go\<close> are three structs of
  the same shape; they are instances of one record.
\<close>

record ('k, 'v) Tracked =
  NodeCPUTimeDelta :: real
  Running :: "('k \<times> 'v) list"
  Terminated :: "('k \<times> 'v) list"

text \<open>
  Modelled from the spec: the structs \<^verbatim>\<open>Process\<close>, \<^verbatim>\<open>Container\<close> and \<^verbatim>\<open>VirtualMachine\<close> of
  package \<^verbatim>\<open>resource\<close> are declared outside the files at hand. \<open>Entity\<close> is the spec's entity
  base, the two CPU-time fields that the three have in common; they extend it by the
  fields of the spec's data model that the code reads or writes.
\<close>

record Entity =
  CPUTotalTime :: real
  CPUTimeDelta :: real

record Workload = Entity +
  ID :: string
  Name :: string

record Container = Workload +
  Runtime :: string

record VirtualMachine = Workload +
  Hypervisor :: string

subsection \<open>calculateVMPower\<close>

text \<open>
  The body of the inner loop of \<^verbatim>\<open>calculateVMPower\<close>: the usage of the VM with key \<open>vid\<close>
  (Go's \<^verbatim>\<open>id\<close>, a constant of HOL) and informer entry \<open>c\<close>, for one zone of the node.
\<close>

definition vmZoneUsage ::
  "(real \<Rightarrow> 'e) \<Rightarrow> ('e \<Rightarrow> real) \<Rightarrow> (string, VirtualMachine) Tracked \<Rightarrow> 'e Snapshot \<Rightarrow>
   string \<Rightarrow> VirtualMachine \<Rightarrow> zone \<Rightarrow> ('e::{zero,plus}) Usage \<Rightarrow> 'e Usage" where
  "vmZoneUsage Energy float64 vms prev vid c zone nodeZoneUsage =
    (if Power nodeZoneUsage = 0 \<or> Delta nodeZoneUsage = 0 \<or> NodeCPUTimeDelta vms = 0
     then \<lparr>Power = 0, Delta = 0, Absolute = 0\<rparr>
     else
       let cpuTimeRatio = CPUTimeDelta c / NodeCPUTimeDelta vms;
           u = \<lparr>Power = cpuTimeRatio * MicroWatts (Power nodeZoneUsage),
                Delta = Energy (cpuTimeRatio * float64 (Delta nodeZoneUsage)),
                Absolute = 0\<rparr>
       in (case map_of (VirtualMachines prev) vid of
             Some prevVM \<Rightarrow>
               (case map_of (vm_Zones prevVM) zone of
                  Some prevUsage \<Rightarrow> u\<lparr>Absolute := Absolute prevUsage + Delta u\<rparr>
                | None \<Rightarrow> u\<lparr>Absolute := Delta u\<rparr>)
           | None \<Rightarrow> u\<lparr>Absolute := Delta u\<rparr>))"

text \<open>The body of the outer loop: the power entry of one running VM.\<close>

definition vmPower ::
  "(real \<Rightarrow> 'e) \<Rightarrow> ('e \<Rightarrow> real) \<Rightarrow> (string, VirtualMachine) Tracked \<Rightarrow> 'e Snapshot \<Rightarrow>
   'e Snapshot \<Rightarrow> string \<Rightarrow> VirtualMachine \<Rightarrow> ('e::{zero,plus}) VirtualMachinePower" where
  "vmPower Energy float64 vms prev newSnapshot vid c =
    \<lparr>vm_ID = vid, vm_Name = Name c, vm_Hypervisor = Hypervisor c,
     vm_CPUTotalTime = CPUTotalTime c,
     vm_Zones = map (\<lambda>(zone, nodeZoneUsage).
                  (zone, vmZoneUsage Energy float64 vms prev vid c zone nodeZoneUsage))
                (Zones (Node newSnapshot))\<rparr>"

text \<open>
  \<^verbatim>\<open>calculateVMPower(prev, newSnapshot)\<close>, with \<open>vms\<close> the value of
  \<^verbatim>\<open>pm.resources.VirtualMachines()\<close>. Each iteration of the two loops writes the entry of its
  own key only, so the loops are maps over the entries. The function returns the new
  snapshot; the Go error it returns is nil on every path.
\<close>

definition calculateVMPower ::
  "(real \<Rightarrow> 'e) \<Rightarrow> ('e \<Rightarrow> real) \<Rightarrow> (string, VirtualMachine) Tracked \<Rightarrow> 'e Snapshot \<Rightarrow>
   'e Snapshot \<Rightarrow> ('e::{zero,plus}) Snapshot" where
  "calculateVMPower Energy float64 vms prev newSnapshot =
    (if length (Running vms) = 0 then newSnapshot
     else newSnapshot\<lparr>VirtualMachines :=
            map (\<lambda>(vid, c). (vid, vmPower Energy float64 vms prev newSnapshot vid c))
              (Running vms)\<rparr>)"

text \<open>The usage that a snapshot holds for a VM and a zone (\<^verbatim>\<open>s.VirtualMachines[id].Zones[zone]\<close>).\<close>

definition vmUsage :: "'e Snapshot \<Rightarrow> string \<Rightarrow> zone \<Rightarrow> 'e Usage option" where
  "vmUsage s vid zone =
    (case map_of (VirtualMachines s) vid of
       None \<Rightarrow> None
     | Some vm \<Rightarrow> map_of (vm_Zones vm) zone)"

section \<open>internal/resource: the resource informer\<close>

subsection \<open>Errors\<close>

text \<open>
  Go's error values, as far as the informer builds them: an error of a collaborator
  (\<open>errorString\<close>), \<^verbatim>\<open>fmt.Errorf("msg: %w", err)\<close> (\<open>wrapError\<close>) and the value of
  \<^verbatim>\<open>errors.Join\<close> (\<open>joinError\<close>). A nil error is \<open>None\<close>.
\<close>

datatype error = errorString string | wrapError string error | joinError "error list"

definition nonNil :: "error option list \<Rightarrow> error list" where
  "nonNil errs = concat (map (\<lambda>e. case e of None \<Rightarrow> [] | Some x \<Rightarrow> [x]) errs)"

text \<open>\<^verbatim>\<open>errors.Join\<close> drops the nil errors and returns nil when none is left.\<close>

definition errors_Join :: "error option list \<Rightarrow> error option" where
  "errors_Join errs = (if nonNil errs = [] then None else Some (joinError (nonNil errs)))"

text \<open>The error component of a result pair.\<close>

definition err_of :: "error + 'a \<Rightarrow> error option" where
  "err_of r = (case r of Inl e \<Rightarrow> Some e | Inr _ \<Rightarrow> None)"

subsection \<open>Processes and the process table\<close>

text \<open>
  Modelled from the spec: the type \<^verbatim>\<open>ProcessType\<close> is declared outside the files at hand.
  The spec lists its values, and has a process start as \<^verbatim>\<open>Unknown\<close>: \<open>UnknownProcess\<close> is
  the zero value, the type of the \<^verbatim>\<open>Process\<close> that \<^verbatim>\<open>newProcess\<close> allocates.
\<close>

datatype ProcessType = UnknownProcess | RegularProcess | ContainerProcess | VMProcess

record Process = Entity +
  PID :: int
  Comm :: string
  Exe :: string
  Type :: ProcessType
  Container :: "Container option"
  VirtualMachine :: "VirtualMachine option"

text \<open>
  A \<^verbatim>\<open>procInfo\<close> is one entry of the process table. Its methods are read at most once for
  each entry in a cycle, so an entry is the record of what they return (fields prefixed
  \<open>proc_\<close>). The two classifiers \<^verbatim>\<open>containerInfoFromProc(proc)\<close> and \<^verbatim>\<open>vmInfoFromProc(proc)\<close>
  are collaborators outside the files at hand; what they return for the entry is part of
  the record too: an error, no owner (\<open>Inr None\<close>) or the owner.
\<close>

record procInfo =
  proc_PID :: int
  proc_CPUTime :: "error + real"
  proc_Comm :: "error + string"
  proc_Executable :: "error + string"
  containerInfoFromProc :: "error + Container option"
  vmInfoFromProc :: "error + VirtualMachine option"

record ProcessTypeInfo =
  info_Type :: ProcessType
  info_Container :: "Container option"
  info_VM :: "VirtualMachine option"

text \<open>
  \<^verbatim>\<open>computeTypeInfoFromProc\<close>. The two goroutines share no state and the function waits for
  both, so it is a function of the two results. Every \<^verbatim>\<open>return\<close> has either the info or
  the error non-nil: in the third case \<^verbatim>\<open>errors.Join\<close> of two nil errors is nil, in the
  default case one of the two errors is not nil and \<^verbatim>\<open>errors.Join\<close> is the \<open>joinError\<close> of
  the errors that are not nil.
\<close>

definition computeTypeInfoFromProc :: "procInfo \<Rightarrow> error + ProcessTypeInfo" where
  "computeTypeInfoFromProc proc =
    (let ctnrResult = containerInfoFromProc proc; vmResult = vmInfoFromProc proc in
     case ctnrResult of
       Inr (Some container) \<Rightarrow>
         Inr \<lparr>info_Type = ContainerProcess, info_Container = Some container, info_VM = None\<rparr>
     | _ \<Rightarrow>
       (case vmResult of
          Inr (Some vm) \<Rightarrow>
            Inr \<lparr>info_Type = VMProcess, info_Container = None, info_VM = Some vm\<rparr>
        | _ \<Rightarrow>
          if err_of ctnrResult = None \<and> err_of vmResult = None
          then Inr \<lparr>info_Type = RegularProcess, info_Container = None, info_VM = None\<rparr>
          else Inl (joinError (nonNil [err_of ctnrResult, err_of vmResult]))))"

text \<open>
  \<^verbatim>\<open>populateProcessFields(p, proc)\<close> writes to \<open>p\<close> in place: the result is \<open>p\<close> as the call
  leaves it, also when it returns an error, and the error.
\<close>

definition populateProcessFields :: "Process \<Rightarrow> procInfo \<Rightarrow> Process \<times> error option" where
  "populateProcessFields p proc =
    (case proc_CPUTime proc of
       Inl err \<Rightarrow> (p, Some err)
     | Inr cpuTotalTime \<Rightarrow>
       let p1 = p\<lparr>CPUTimeDelta := cpuTotalTime - CPUTotalTime p\<rparr>;
           p2 = p1\<lparr>CPUTotalTime := cpuTotalTime\<rparr>
       in if Comm p2 \<noteq> [] \<and> CPUTimeDelta p2 \<le> 1 / 10 ^ 12 then (p2, None)
          else
            (case proc_Comm proc of
               Inl err \<Rightarrow> (p2, Some (wrapError ''failed to get process comm'' err))
             | Inr comm \<Rightarrow>
               let p3 = p2\<lparr>Comm := comm\<rparr> in
               (case proc_Executable proc of
                  Inl err \<Rightarrow> (p3, Some (wrapError ''failed to get process executable'' err))
                | Inr exe \<Rightarrow>
                  let p4 = p3\<lparr>Exe := exe\<rparr> in
                  if Type p4 = UnknownProcess then
                    (case computeTypeInfoFromProc proc of
                       Inl err \<Rightarrow> (p4, Some (wrapError ''failed to detect process type'' err))
                     | Inr info \<Rightarrow>
                         (p4\<lparr>Type := info_Type info, Container := info_Container info,
                             VirtualMachine := info_VM info\<rparr>, None))
                  else (p4, None))))"

text \<open>\<^verbatim>\<open>newProcess\<close>: a zero \<^verbatim>\<open>Process\<close> with the PID set, then populated; nil on an error.\<close>

definition newProcess :: "procInfo \<Rightarrow> error + Process" where
  "newProcess proc =
    (let p = \<lparr>CPUTotalTime = 0, CPUTimeDelta = 0, PID = proc_PID proc, Comm = [], Exe = [],
              Type = UnknownProcess, Container = None, VirtualMachine = None\<rparr>
     in case populateProcessFields p proc of
          (_, Some err) \<Rightarrow> Inl err
        | (p', None) \<Rightarrow> Inr p')"

subsection \<open>The informer and its caches\<close>

text \<open>
  The fields of \<^verbatim>\<open>resourceInformer\<close> that \<^verbatim>\<open>Refresh\<close> reads and writes, but for the logger, the
  clock and the time of the last scan.
\<close>

record resourceInformer =
  procCache :: "(int \<times> Process) list"
  processes :: "(int, Process) Tracked"
  containerCache :: "(string \<times> Container) list"
  containers :: "(string, Container) Tracked"
  vmCache :: "(string \<times> VirtualMachine) list"
  vms :: "(string, VirtualMachine) Tracked"

text \<open>The informer that \<^verbatim>\<open>NewInformer\<close> returns.\<close>

definition NewInformer :: resourceInformer where
  "NewInformer =
    \<lparr>procCache = [],
     processes = \<lparr>NodeCPUTimeDelta = 0, Running = [], Terminated = []\<rparr>,
     containerCache = [],
     containers = \<lparr>NodeCPUTimeDelta = 0, Running = [], Terminated = []\<rparr>,
     vmCache = [],
     vms = \<lparr>NodeCPUTimeDelta = 0, Running = [], Terminated = []\<rparr>\<rparr>"

text \<open>
  \<^verbatim>\<open>updateProcessCache\<close>. For a cached process the call writes to the cached object, so the
  cache holds what \<^verbatim>\<open>populateProcessFields\<close> left, also on an error. The Go function then
  returns the pointer together with the error; \<^verbatim>\<open>Refresh\<close> reads the pointer only when the
  error is nil.
\<close>

definition updateProcessCache ::
  "resourceInformer \<Rightarrow> procInfo \<Rightarrow> resourceInformer \<times> (error + Process)" where
  "updateProcessCache ri proc =
    (let pid = proc_PID proc in
     case map_of (procCache ri) pid of
       Some cached \<Rightarrow>
         (case populateProcessFields cached proc of
            (cached', err) \<Rightarrow>
              (ri\<lparr>procCache := AList.update pid cached' (procCache ri)\<rparr>,
               case err of Some e \<Rightarrow> Inl e | None \<Rightarrow> Inr cached'))
     | None \<Rightarrow>
         (case newProcess proc of
            Inl err \<Rightarrow> (ri, Inl err)
          | Inr newProc \<Rightarrow>
              (ri\<lparr>procCache := AList.update pid newProc (procCache ri)\<rparr>, Inr newProc)))"

text \<open>
  \<^verbatim>\<open>updateContainerCache\<close> and \<^verbatim>\<open>updateVMCache\<close>. \<^verbatim>\<open>Clone\<close> is declared outside the files at
  hand and is a parameter. The result is the cached object after the two additions, which
  the cache holds as well; nil (\<open>None\<close>) for a process without a container.
\<close>

definition updateContainerCache ::
  "(Container \<Rightarrow> Container) \<Rightarrow> resourceInformer \<Rightarrow> Process \<Rightarrow> bool \<Rightarrow>
   resourceInformer \<times> Container option" where
  "updateContainerCache Clone ri proc resetCPUTime =
    (case Container proc of
       None \<Rightarrow> (ri, None)
     | Some c \<Rightarrow>
       let cached = (case map_of (containerCache ri) (ID c) of
                       Some cached \<Rightarrow> cached
                     | None \<Rightarrow> Clone c);
           cached1 = (if resetCPUTime then cached\<lparr>CPUTimeDelta := 0\<rparr> else cached);
           cached2 = cached1\<lparr>CPUTimeDelta := CPUTimeDelta cached1 + CPUTimeDelta proc\<rparr>;
           cached3 = cached2\<lparr>CPUTotalTime := CPUTotalTime cached2 + CPUTimeDelta proc\<rparr>
       in (ri\<lparr>containerCache := AList.update (ID c) cached3 (containerCache ri)\<rparr>,
           Some cached3))"

definition updateVMCache ::
  "(VirtualMachine \<Rightarrow> VirtualMachine) \<Rightarrow> resourceInformer \<Rightarrow> Process \<Rightarrow> bool \<Rightarrow>
   resourceInformer \<times> VirtualMachine option" where
  "updateVMCache Clone ri proc resetCPUTime =
    (case VirtualMachine proc of
       None \<Rightarrow> (ri, None)
     | Some vm \<Rightarrow>
       let cached = (case map_of (vmCache ri) (ID vm) of
                       Some cached \<Rightarrow> cached
                     | None \<Rightarrow> Clone vm);
           cached1 = (if resetCPUTime then cached\<lparr>CPUTimeDelta := 0\<rparr> else cached);
           cached2 = cached1\<lparr>CPUTimeDelta := CPUTimeDelta cached1 + CPUTimeDelta proc\<rparr>;
           cached3 = cached2\<lparr>CPUTotalTime := CPUTotalTime cached2 + CPUTimeDelta proc\<rparr>
       in (ri\<lparr>vmCache := AList.update (ID vm) cached3 (vmCache ri)\<rparr>, Some cached3))"

subsection \<open>Refresh\<close>

text \<open>The informer and the local variables of \<^verbatim>\<open>Refresh\<close> during its first loop.\<close>

record scan =
  ri :: resourceInformer
  procsRunning :: "(int \<times> Process) list"
  containersRunning :: "(string \<times> Container) list"
  vmsRunning :: "(string \<times> VirtualMachine) list"
  refreshErrs :: "error option"

text \<open>
  \<^verbatim>\<open>procsRunning[pid]\<close> and \<^verbatim>\<open>ri.procCache[pid]\<close> are the same pointer. When
  \<^verbatim>\<open>populateProcessFields\<close> fails on a cached process after it has written some fields, and
  \<^verbatim>\<open>procsRunning\<close> has the PID already (the process table listed it before), that entry
  shows the written fields as well: \<open>shared\<close> copies the cached value to it.
\<close>

definition shared :: "('k \<times> 'v) list \<Rightarrow> 'k \<Rightarrow> ('k \<times> 'v) list \<Rightarrow> ('k \<times> 'v) list" where
  "shared cache k running =
    (case (map_of running k, map_of cache k) of
       (Some _, Some v) \<Rightarrow> AList.update k v running
     | _ \<Rightarrow> running)"

text \<open>
  The body of the first loop, for one entry of the process table. The container and the VM
  branch run for a process with an owner; there \<^verbatim>\<open>updateContainerCache\<close> and
  \<^verbatim>\<open>updateVMCache\<close> do not return nil.
\<close>

definition scanProc ::
  "(Container \<Rightarrow> Container) \<Rightarrow> (VirtualMachine \<Rightarrow> VirtualMachine) \<Rightarrow> scan \<Rightarrow> procInfo \<Rightarrow> scan" where
  "scanProc CloneC CloneVM st p =
    (let pid = proc_PID p in
     case updateProcessCache (ri st) p of
       (ri1, Inl err) \<Rightarrow>
         st\<lparr>ri := ri1,
            procsRunning := shared (procCache ri1) pid (procsRunning st),
            refreshErrs := errors_Join [refreshErrs st, Some err]\<rparr>
     | (ri1, Inr proc) \<Rightarrow>
         let st1 = st\<lparr>ri := ri1, procsRunning := AList.update pid proc (procsRunning st)\<rparr> in
         (case Container proc of
            Some c \<Rightarrow>
              let seen = (map_of (containersRunning st1) (ID c) \<noteq> None);
                  resetCPUTime = \<not> seen
              in (case updateContainerCache CloneC (ri st1) proc resetCPUTime of
                    (ri2, Some cached) \<Rightarrow>
                      st1\<lparr>ri := ri2,
                          containersRunning := AList.update (ID c) cached (containersRunning st1)\<rparr>
                  | (ri2, None) \<Rightarrow> st1\<lparr>ri := ri2\<rparr>)
          | None \<Rightarrow>
              (case VirtualMachine proc of
                 Some vm \<Rightarrow>
                   let seen = (map_of (vmsRunning st1) (ID vm) \<noteq> None);
                       resetCPUTime = \<not> seen
                   in (case updateVMCache CloneVM (ri st1) proc resetCPUTime of
                         (ri2, Some cached) \<Rightarrow>
                           st1\<lparr>ri := ri2,
                               vmsRunning := AList.update (ID vm) cached (vmsRunning st1)\<rparr>
                       | (ri2, None) \<Rightarrow> st1\<lparr>ri := ri2\<rparr>)
               | None \<Rightarrow> st1)))"

text \<open>
  The loops that find the terminated processes, containers and VMs: one pass over the
  entries of a cache. An entry whose key is running adds its CPU-time delta to the sum;
  any other entry goes to the terminated map and leaves the cache. The state of the loop
  is the sum, the terminated map and the cache.
\<close>

definition sweepStep ::
  "('k \<times> 'v) list \<Rightarrow> ('v \<Rightarrow> real) \<Rightarrow> real \<times> ('k \<times> 'v) list \<times> ('k \<times> 'v) list \<Rightarrow> 'k \<times> 'v \<Rightarrow>
   real \<times> ('k \<times> 'v) list \<times> ('k \<times> 'v) list" where
  "sweepStep running delta state entry =
    (case (state, entry) of
       ((cpuDelta, terminated, cache), (k, v)) \<Rightarrow>
         if map_of running k \<noteq> None then (cpuDelta + delta v, terminated, cache)
         else (cpuDelta, AList.update k v terminated, AList.delete k cache))"

definition sweep ::
  "('k \<times> 'v) list \<Rightarrow> ('v \<Rightarrow> real) \<Rightarrow> ('k \<times> 'v) list \<Rightarrow>
   real \<times> ('k \<times> 'v) list \<times> ('k \<times> 'v) list" where
  "sweep running delta cache = foldl (sweepStep running delta) (0, [], cache) cache"

text \<open>The first loop of \<^verbatim>\<open>Refresh\<close>, from the empty running maps and no error.\<close>

definition scanProcs ::
  "(Container \<Rightarrow> Container) \<Rightarrow> (VirtualMachine \<Rightarrow> VirtualMachine) \<Rightarrow> resourceInformer \<Rightarrow>
   procInfo list \<Rightarrow> scan" where
  "scanProcs CloneC CloneVM ri0 procs =
    foldl (scanProc CloneC CloneVM)
      \<lparr>ri = ri0, procsRunning = [], containersRunning = [], vmsRunning = [],
       refreshErrs = None\<rparr> procs"

text \<open>
  \<^verbatim>\<open>Refresh\<close>, with \<open>AllProcs\<close> the result of \<^verbatim>\<open>ri.fs.AllProcs()\<close>. The result is the error that
  \<^verbatim>\<open>Refresh\<close> returns and the informer afterwards. The loop over the VM cache sums nothing.
\<close>

definition Refresh ::
  "(Container \<Rightarrow> Container) \<Rightarrow> (VirtualMachine \<Rightarrow> VirtualMachine) \<Rightarrow> resourceInformer \<Rightarrow>
   error + procInfo list \<Rightarrow> error option \<times> resourceInformer" where
  "Refresh CloneC CloneVM ri0 AllProcs =
    (case AllProcs of
       Inl err \<Rightarrow> (Some (wrapError ''failed to get processes'' err), ri0)
     | Inr procs \<Rightarrow>
       let st = scanProcs CloneC CloneVM ri0 procs;
           ri1 = ri st
       in case sweep (procsRunning st) CPUTimeDelta (procCache ri1) of
            (nodeCPUDelta, procsTerminated, procCache') \<Rightarrow>
          case sweep (containersRunning st) CPUTimeDelta (containerCache ri1) of
            (totalContainerDelta, containersTerminated, containerCache') \<Rightarrow>
          case sweep (vmsRunning st) (\<lambda>vm. 0) (vmCache ri1) of
            (_, vmsTerminated, vmCache') \<Rightarrow>
            (refreshErrs st,
             \<lparr>procCache = procCache',
              processes = \<lparr>NodeCPUTimeDelta = nodeCPUDelta, Running = procsRunning st,
                           Terminated = procsTerminated\<rparr>,
              containerCache = containerCache',
              containers = \<lparr>NodeCPUTimeDelta = nodeCPUDelta, Running = containersRunning st,
                            Terminated = containersTerminated\<rparr>,
              vmCache = vmCache',
              vms = \<lparr>NodeCPUTimeDelta = nodeCPUDelta, Running = vmsRunning st,
                     Terminated = vmsTerminated\<rparr>\<rparr>))"

section \<open>pkg/collector: eviction of inactive containers\<close>

text \<open>
  \<^verbatim>\<open>handleInactiveContainers\<close>. The constants \<^verbatim>\<open>utils.SystemProcessName\<close> and
  \<^verbatim>\<open>utils.KernelProcessName\<close> and the collaborator \<^verbatim>\<open>cgroup.GetAliveContainers\<close> are outside the
  files at hand: the two names are parameters, and so is \<open>GetAliveContainers\<close>, the result
  that the collaborator gives if it is called. The container statistics are values of any
  type. The function writes \<^verbatim>\<open>c.ContainerStats\<close>, may call the collaborator and may hand an
  error to the logger (\<^verbatim>\<open>klog.V(5)\<close>); it returns nothing. The result here is the map
  afterwards, whether the collaborator has been called, and the errors handed to the logger.
\<close>

definition maxInactiveContainers :: int where
  "maxInactiveContainers = 10"

record 'cs eviction =
  ContainerStats :: "(string \<times> 'cs) list"
  aliveQueried :: bool
  logged :: "error list"

definition evictStep ::
  "string \<Rightarrow> string \<Rightarrow> (string \<times> bool) list \<Rightarrow> (string \<times> 'cs) list \<Rightarrow> string \<times> 'cs \<Rightarrow>
   (string \<times> 'cs) list" where
  "evictStep SystemProcessName KernelProcessName aliveContainers stats entry =
    (let containerID = fst entry in
     if containerID = SystemProcessName \<or> containerID = KernelProcessName then stats
     else if map_of aliveContainers containerID = None then AList.delete containerID stats
     else stats)"

definition handleInactiveContainers ::
  "string \<Rightarrow> string \<Rightarrow> error + (string \<times> bool) list \<Rightarrow> (string \<times> 'cs) list \<Rightarrow>
   (string \<times> bool) list \<Rightarrow> 'cs eviction" where
  "handleInactiveContainers SystemProcessName KernelProcessName GetAliveContainers stats
     foundContainer =
    (let numOfInactive = int (length stats) - int (length foundContainer) in
     if numOfInactive \<le> maxInactiveContainers
     then \<lparr>ContainerStats = stats, aliveQueried = False, logged = []\<rparr>
     else
       (case GetAliveContainers of
          Inl err \<Rightarrow> \<lparr>ContainerStats = stats, aliveQueried = True, logged = [err]\<rparr>
        | Inr aliveContainers \<Rightarrow>
            \<lparr>ContainerStats =
               foldl (evictStep SystemProcessName KernelProcessName aliveContainers) stats stats,
             aliveQueried = True, logged = []\<rparr>))"

section \<open>Notions of the statements\<close>

text \<open>
  A cache and the published sets agree when the cache holds the keys of the running set
  and no key is both running and terminated.
\<close>

definition consistent :: "('k \<times> 'v) list \<Rightarrow> ('k, 'v) Tracked \<Rightarrow> bool" where
  "consistent cache tracked \<longleftrightarrow>
     fst ` set cache = fst ` set (Running tracked) \<and>
     fst ` set (Running tracked) \<inter> fst ` set (Terminated tracked) = {}"

text \<open>
  An error occurs in another one when it is reached from it by unwrapping, as
  \<^verbatim>\<open>errors.Is\<close> walks an error; \<open>surfaced e r\<close> says so of a result that may be nil.
\<close>

fun occursIn :: "error \<Rightarrow> error \<Rightarrow> bool" where
  "occursIn e (errorString s) = (e = errorString s)"
| "occursIn e (wrapError m e') = (e = wrapError m e' \<or> occursIn e e')"
| "occursIn e (joinError es) = (e = joinError es \<or> (\<exists>x \<in> set es. occursIn e x))"

definition surfaced :: "error \<Rightarrow> error option \<Rightarrow> bool" where
  "surfaced e r = (case r of None \<Rightarrow> False | Some err \<Rightarrow> occursIn e err)"

text \<open>
  The member processes of a container and of a VM, as the first loop of \<^verbatim>\<open>Refresh\<close> groups
  them (a process with a container is not grouped under a VM), and the sum of the CPU-time
  deltas of the members among the running processes.
\<close>

definition inContainer :: "string \<Rightarrow> Process \<Rightarrow> bool" where
  "inContainer cid p = (case Container p of Some c \<Rightarrow> ID c = cid | None \<Rightarrow> False)"

definition inVM :: "string \<Rightarrow> Process \<Rightarrow> bool" where
  "inVM vid p =
    (Container p = None \<and> (case VirtualMachine p of Some vm \<Rightarrow> ID vm = vid | None \<Rightarrow> False))"

definition memberCPUTimeDelta :: "(Process \<Rightarrow> bool) \<Rightarrow> (int \<times> Process) list \<Rightarrow> real" where
  "memberCPUTimeDelta member running =
    sum_list (map (CPUTimeDelta \<circ> snd) (filter (member \<circ> snd) running))"

text \<open>
  The three assignments that \<^verbatim>\<open>updateContainerCache\<close> and \<^verbatim>\<open>updateVMCache\<close> make to the
  cached object, and what the two functions and the assignment to the running map do to
  a cache and a running map together.
\<close>

definition addCPUTime :: "bool \<Rightarrow> real \<Rightarrow> 'a Entity_scheme \<Rightarrow> 'a Entity_scheme" where
  "addCPUTime resetCPUTime d cached =
    (let cached1 = (if resetCPUTime then cached\<lparr>CPUTimeDelta := 0\<rparr> else cached);
         cached2 = cached1\<lparr>CPUTimeDelta := CPUTimeDelta cached1 + d\<rparr>
     in cached2\<lparr>CPUTotalTime := CPUTotalTime cached2 + d\<rparr>)"

definition ownerUpdate ::
  "('a Workload_scheme \<Rightarrow> 'a Workload_scheme) \<Rightarrow> (string \<times> 'a Workload_scheme) list \<Rightarrow>
   (string \<times> 'a Workload_scheme) list \<Rightarrow> 'a Workload_scheme \<Rightarrow> real \<Rightarrow>
   (string \<times> 'a Workload_scheme) list \<times> (string \<times> 'a Workload_scheme) list" where
  "ownerUpdate Clone cache running c d =
    (let cached = addCPUTime (map_of running (ID c) = None) d
                    (case map_of cache (ID c) of Some x \<Rightarrow> x | None \<Rightarrow> Clone c)
     in (AList.update (ID c) cached cache, AList.update (ID c) cached running))"

text \<open>
  The invariant of the first loop for the owners: a running owner is cached with the same
  value and its delta is the sum over its members among the running processes; an owner
  that is not running has no member among them, and a running owner has one.
\<close>

definition accounted ::
  "(string \<Rightarrow> Process \<Rightarrow> bool) \<Rightarrow> (string \<times> 'a Workload_scheme) list \<Rightarrow>
   (string \<times> 'a Workload_scheme) list \<Rightarrow> (int \<times> Process) list \<Rightarrow> bool" where
  "accounted member cache running procs \<longleftrightarrow>
     (\<forall>k c. map_of running k = Some c \<longrightarrow>
        map_of cache k = Some c \<and> CPUTimeDelta c = memberCPUTimeDelta (member k) procs) \<and>
     (\<forall>k. map_of running k = None \<longrightarrow> (\<forall>e \<in> set procs. \<not> member k (snd e))) \<and>
     (\<forall>k c. map_of running k = Some c \<longrightarrow> (\<exists>e \<in> set procs. member k (snd e)))"

definition accountedScan :: "scan \<Rightarrow> bool" where
  "accountedScan st \<longleftrightarrow>
     accounted inContainer (containerCache (ri st)) (containersRunning st) (procsRunning st) \<and>
     accounted inVM (vmCache (ri st)) (vmsRunning st) (procsRunning st)"

section \<open>Inputs of the examples\<close>

text \<open>
  A node with one zone, measured at 100 W and 50 J in a cycle of 10 s of CPU time, and one
  running VM that used 2 s of it. Energy is a \<^typ>\<open>real\<close> here, the two conversions are the
  identity.
\<close>

definition vmsEx :: "(string, VirtualMachine) Tracked" where
  "vmsEx =
    \<lparr>NodeCPUTimeDelta = 10,
     Running = [(''vm1'', \<lparr>CPUTotalTime = 7, CPUTimeDelta = 2, ID = ''vm1'', Name = ''guest'',
                           Hypervisor = ''kvm''\<rparr>)],
     Terminated = []\<rparr>"

definition firstEx :: "real Snapshot" where
  "firstEx = \<lparr>Node = \<lparr>Zones = [(''package'', \<lparr>Power = 0, Delta = 0, Absolute = 450\<rparr>)]\<rparr>,
              VirtualMachines = []\<rparr>"

definition busyEx :: "real Snapshot" where
  "busyEx = \<lparr>Node = \<lparr>Zones = [(''package'', \<lparr>Power = 100, Delta = 50, Absolute = 500\<rparr>)]\<rparr>,
             VirtualMachines = []\<rparr>"

text \<open>The next cycle: the zone's counter has not moved, the node reports 0 W and 0 J.\<close>

definition idleEx :: "real Snapshot" where
  "idleEx = \<lparr>Node = \<lparr>Zones = [(''package'', \<lparr>Power = 0, Delta = 0, Absolute = 500\<rparr>)]\<rparr>,
             VirtualMachines = []\<rparr>"

text \<open>
  The same node when an \<^verbatim>\<open>Energy\<close> is a whole number of microjoules and a power a number of
  microwatts, the units that the code's \<^verbatim>\<open>MicroWatts()\<close> and the exporter's \<^verbatim>\<open>Joules()\<close> convert
  from: \<^verbatim>\<open>Energy(x)\<close> cuts off the fraction of \<open>x\<close>, as Go converts a \<^verbatim>\<open>float64\<close> that is not
  negative to an integer. In the second snapshot the zone has gained 52 microjoules, of
  which a fifth is not a whole number.
\<close>

definition emptyMicroEx :: "nat Snapshot" where
  "emptyMicroEx = \<lparr>Node = \<lparr>Zones = []\<rparr>, VirtualMachines = []\<rparr>"

definition busyMicroEx :: "nat Snapshot" where
  "busyMicroEx =
    \<lparr>Node = \<lparr>Zones = [(''package'',
               \<lparr>Power = 100000000, Delta = 50000000, Absolute = 500000000\<rparr>)]\<rparr>,
     VirtualMachines = []\<rparr>"

definition oddMicroEx :: "nat Snapshot" where
  "oddMicroEx =
    \<lparr>Node = \<lparr>Zones = [(''package'', \<lparr>Power = 100, Delta = 52, Absolute = 552\<rparr>)]\<rparr>,
     VirtualMachines = []\<rparr>"

text \<open>
  Fifteen cached containers, three of them found through surviving processes, and a live
  set of these three and two more. The statistics are of type \<^typ>\<open>unit\<close>.
\<close>

definition statsEx :: "(string \<times> unit) list" where
  "statsEx = map (\<lambda>k. (k, ()))
    [''c01'', ''c02'', ''c03'', ''c04'', ''c05'', ''c06'', ''c07'', ''c08'', ''c09'', ''c10'',
     ''c11'', ''c12'', ''c13'', ''c14'', ''c15'']"

definition foundEx :: "(string \<times> bool) list" where
  "foundEx = [(''c01'', True), (''c02'', True), (''c03'', True)]"

definition aliveEx :: "(string \<times> bool) list" where
  "aliveEx = [(''c01'', True), (''c02'', True), (''c03'', True), (''c04'', True), (''c05'', True)]"

text \<open>Twelve cached containers, one of them found, and a live set that is empty.\<close>

definition statsEx12 :: "(string \<times> unit) list" where
  "statsEx12 = map (\<lambda>k. (k, ()))
    [''c01'', ''c02'', ''c03'', ''c04'', ''c05'', ''c06'', ''c07'', ''c08'', ''c09'', ''c10'',
     ''c11'', ''c12'']"

definition foundEx1 :: "(string \<times> bool) list" where
  "foundEx1 = [(''c01'', True)]"

text \<open>
  Entries of a process table: a process without an owner; the same PID with a smaller CPU
  time (the PID has been given to another process); a process whose two classifiers fail,
  and the same PID when they succeed; a process whose command name cannot be read.
\<close>

definition procNew :: procInfo where
  "procNew = \<lparr>proc_PID = 7, proc_CPUTime = Inr 5, proc_Comm = Inr ''sh'',
     proc_Executable = Inr ''/bin/sh'', containerInfoFromProc = Inr None,
     vmInfoFromProc = Inr None\<rparr>"

definition procReused :: procInfo where
  "procReused = \<lparr>proc_PID = 7, proc_CPUTime = Inr 3, proc_Comm = Inr ''ls'',
     proc_Executable = Inr ''/bin/ls'', containerInfoFromProc = Inr None,
     vmInfoFromProc = Inr None\<rparr>"

definition procBad :: procInfo where
  "procBad = \<lparr>proc_PID = 1, proc_CPUTime = Inr 5, proc_Comm = Inr ''sh'',
     proc_Executable = Inr ''/bin/sh'', containerInfoFromProc = Inl (errorString ''cgroup''),
     vmInfoFromProc = Inl (errorString ''cmdline'')\<rparr>"

definition procRetry :: procInfo where
  "procRetry = \<lparr>proc_PID = 1, proc_CPUTime = Inr 6, proc_Comm = Inr ''sh'',
     proc_Executable = Inr ''/bin/sh'', containerInfoFromProc = Inr None,
     vmInfoFromProc = Inr None\<rparr>"

definition procGone :: procInfo where
  "procGone = \<lparr>proc_PID = 2, proc_CPUTime = Inr 1,
     proc_Comm = Inl (errorString ''permission denied''), proc_Executable = Inr ''/bin/sh'',
     containerInfoFromProc = Inr None, vmInfoFromProc = Inr None\<rparr>"

text \<open>
  An informer after some cycles: a container with two member processes, whose delta of the
  last cycle is 7 s, and a VM with its one process, whose delta of the last cycle is 9 s.
  In the next process table the two processes of the container have used 0.4 s and 0.6 s
  more, the process of the VM 2 s more.
\<close>

definition webEx :: Container where
  "webEx = \<lparr>CPUTotalTime = 0, CPUTimeDelta = 0, ID = ''c1'', Name = ''web'', Runtime = ''crio''\<rparr>"

definition workerEx :: "int \<Rightarrow> real \<Rightarrow> real \<Rightarrow> Process" where
  "workerEx pid cpu delta =
    \<lparr>CPUTotalTime = cpu, CPUTimeDelta = delta, PID = pid, Comm = ''nginx'',
     Exe = ''/usr/sbin/nginx'', Type = ContainerProcess, Container = Some webEx,
     VirtualMachine = None\<rparr>"

definition guestEx :: VirtualMachine where
  "guestEx = \<lparr>CPUTotalTime = 0, CPUTimeDelta = 0, ID = ''vm1'', Name = ''guest'',
     Hypervisor = ''kvm''\<rparr>"

definition qemuEx :: "real \<Rightarrow> real \<Rightarrow> Process" where
  "qemuEx cpu delta =
    \<lparr>CPUTotalTime = cpu, CPUTimeDelta = delta, PID = 21, Comm = ''qemu-kvm'',
     Exe = ''/usr/bin/qemu-kvm'', Type = VMProcess, Container = None,
     VirtualMachine = Some guestEx\<rparr>"

definition informerEx :: resourceInformer where
  "informerEx =
    \<lparr>procCache = [(11, workerEx 11 10 3), (12, workerEx 12 20 4), (21, qemuEx 100 9)],
     processes = \<lparr>NodeCPUTimeDelta = 16,
                  Running = [(11, workerEx 11 10 3), (12, workerEx 12 20 4), (21, qemuEx 100 9)],
                  Terminated = []\<rparr>,
     containerCache = [(''c1'', webEx\<lparr>CPUTotalTime := 30, CPUTimeDelta := 7\<rparr>)],
     containers = \<lparr>NodeCPUTimeDelta = 16,
                   Running = [(''c1'', webEx\<lparr>CPUTotalTime := 30, CPUTimeDelta := 7\<rparr>)],
                   Terminated = []\<rparr>,
     vmCache = [(''vm1'', guestEx\<lparr>CPUTotalTime := 100, CPUTimeDelta := 9\<rparr>)],
     vms = \<lparr>NodeCPUTimeDelta = 16,
            Running = [(''vm1'', guestEx\<lparr>CPUTotalTime := 100, CPUTimeDelta := 9\<rparr>)],
            Terminated = []\<rparr>\<rparr>"

definition readingEx :: "int \<Rightarrow> real \<Rightarrow> procInfo" where
  "readingEx pid cpu =
    \<lparr>proc_PID = pid, proc_CPUTime = Inr cpu, proc_Comm = Inr ''nginx'',
     proc_Executable = Inr ''/usr/sbin/nginx'', containerInfoFromProc = Inr (Some webEx),
     vmInfoFromProc = Inr None\<rparr>"

definition qemuReadingEx :: "real \<Rightarrow> procInfo" where
  "qemuReadingEx cpu =
    \<lparr>proc_PID = 21, proc_CPUTime = Inr cpu, proc_Comm = Inr ''qemu-kvm'',
     proc_Executable = Inr ''/usr/bin/qemu-kvm'', containerInfoFromProc = Inr None,
     vmInfoFromProc = Inr (Some guestEx)\<rparr>"

definition tableEx :: "procInfo list" where
  "tableEx = [readingEx 11 (104 / 10), readingEx 12 (206 / 10), qemuReadingEx 102]"

section \<open>Power attribution: the theorems\<close>

subsection \<open>Looking a key up after a loop over the entries\<close>

lemma map_of_map_entries:
  "map_of (map (\<lambda>(k, v). (k, f k v)) xs) k = map_option (f k) (map_of xs k)"
  by (induction xs) auto

lemma vmUsage_calculateVMPower:
  assumes "map_of (Running tracked) vid = Some c"
    and "map_of (Zones (Node newSnapshot)) zone = Some nodeZoneUsage"
  shows "vmUsage (calculateVMPower Energy float64 tracked prev newSnapshot) vid zone =
         Some (vmZoneUsage Energy float64 tracked prev vid c zone nodeZoneUsage)"
proof -
  from assms(1) have "Running tracked \<noteq> []" by auto
  then show ?thesis
    using assms
    by (simp add: calculateVMPower_def vmUsage_def vmPower_def map_of_map_entries)
qed

lemmas example_defs =
  vmsEx_def firstEx_def busyEx_def idleEx_def emptyMicroEx_def busyMicroEx_def oddMicroEx_def
  vmUsage_def calculateVMPower_def vmPower_def vmZoneUsage_def MicroWatts_def

subsection \<open>The absolute energy\<close>

text \<open>
  Off the zero guard the absolute energy of a VM and zone is the previous absolute energy
  plus the delta, and the delta alone for a pair that the previous snapshot does not have.
\<close>

lemma absolute_unguarded:
  assumes "map_of (Running tracked) vid = Some c"
    and "map_of (Zones (Node newSnapshot)) zone = Some nodeZoneUsage"
    and "Power nodeZoneUsage \<noteq> 0" and "Delta nodeZoneUsage \<noteq> 0" and "NodeCPUTimeDelta tracked \<noteq> 0"
  shows "\<exists>u. vmUsage (calculateVMPower Energy float64 tracked prev newSnapshot) vid zone = Some u \<and>
           Absolute u = (case vmUsage prev vid zone of
                           Some prevUsage \<Rightarrow> Absolute prevUsage + Delta u
                         | None \<Rightarrow> Delta u)"
proof -
  let ?u = "vmZoneUsage Energy float64 tracked prev vid c zone nodeZoneUsage"
  have "Absolute ?u = (case vmUsage prev vid zone of
                         Some prevUsage \<Rightarrow> Absolute prevUsage + Delta ?u
                       | None \<Rightarrow> Delta ?u)"
    using assms(3-5)
    by (simp add: vmZoneUsage_def Let_def vmUsage_def split: option.splits)
  with vmUsage_calculateVMPower [OF assms(1,2)] show ?thesis
    by blast
qed

text \<open>
  A pair that the previous snapshot does not have starts with the delta as its absolute
  energy, on the zero guard (where both are 0) and off it.
\<close>

lemma absolute_first_observed:
  assumes "map_of (Running tracked) vid = Some c"
    and "map_of (Zones (Node newSnapshot)) zone = Some nodeZoneUsage"
    and "vmUsage prev vid zone = None"
  shows "\<exists>u. vmUsage (calculateVMPower Energy float64 tracked prev newSnapshot) vid zone = Some u \<and>
           Absolute u = Delta u"
proof -
  let ?u = "vmZoneUsage Energy float64 tracked prev vid c zone nodeZoneUsage"
  have "Absolute ?u = Delta ?u"
    using assms(3)
    by (simp add: vmZoneUsage_def Let_def vmUsage_def split: option.splits)
  with vmUsage_calculateVMPower [OF assms(1,2)] show ?thesis
    by blast
qed

text \<open>On the zero guard the absolute energy is 0, whatever the previous snapshot holds.\<close>

lemma absolute_guarded:
  assumes "map_of (Running tracked) vid = Some c"
    and "map_of (Zones (Node newSnapshot)) zone = Some nodeZoneUsage"
    and "Power nodeZoneUsage = 0 \<or> Delta nodeZoneUsage = 0 \<or> NodeCPUTimeDelta tracked = 0"
  shows "vmUsage (calculateVMPower Energy float64 tracked prev newSnapshot) vid zone =
         Some \<lparr>Power = 0, Delta = 0, Absolute = 0\<rparr>"
  using assms(3) by (auto simp: vmUsage_calculateVMPower [OF assms(1,2)] vmZoneUsage_def)

text \<open>
  Claim C1. The absolute energy of a (VM, zone) pair after a cycle is the absolute energy
  before it plus the cycle's delta, also in a cycle where the zero guard makes the delta
  zero. The code does not keep this on the zero guard. In the example the VM is given 10 J
  in a first cycle, which makes its absolute energy 10 J; in the next cycle the node
  reports no power, the VM's delta is 0 J, and its absolute energy is 0 J, not 10 J.
\<close>

theorem zero_guard_resets_absolute_energy:
  "vmUsage (calculateVMPower (\<lambda>x. x) (\<lambda>e. e) vmsEx firstEx busyEx) ''vm1'' ''package'' =
     Some \<lparr>Power = 20, Delta = 10, Absolute = 10\<rparr> \<and>
   vmUsage (calculateVMPower (\<lambda>x. x) (\<lambda>e. e) vmsEx
              (calculateVMPower (\<lambda>x. x) (\<lambda>e. e) vmsEx firstEx busyEx) idleEx)
      ''vm1'' ''package'' =
     Some \<lparr>Power = 0, Delta = 0, Absolute = 0\<rparr>"
  by (simp add: example_defs)

subsection \<open>The zero guard\<close>

text \<open>
  Claim C2. For a running VM and a zone of the node: if the zone's power is 0, or the
  zone's delta is 0, or the node's CPU-time delta is 0, then the power and the delta of the
  VM for the zone are 0, whatever the CPU-time delta of the VM is.
\<close>

theorem calculateVMPower_zero_guard:
  assumes "map_of (Running tracked) vid = Some c"
    and "map_of (Zones (Node newSnapshot)) zone = Some nodeZoneUsage"
    and "Power nodeZoneUsage = 0 \<or> Delta nodeZoneUsage = 0 \<or> NodeCPUTimeDelta tracked = 0"
  shows "\<exists>u. vmUsage (calculateVMPower Energy float64 tracked prev newSnapshot) vid zone = Some u \<and>
           Power u = 0 \<and> Delta u = 0"
  using assms(3) by (auto simp: vmUsage_calculateVMPower [OF assms(1,2)] vmZoneUsage_def)

theorem calculateVMPower_zero_guard_witness:
  "map_of (Running vmsEx) ''vm1'' = Some \<lparr>CPUTotalTime = 7, CPUTimeDelta = 2, ID = ''vm1'',
      Name = ''guest'', Hypervisor = ''kvm''\<rparr> \<and>
   map_of (Zones (Node idleEx)) ''package'' = Some \<lparr>Power = 0, Delta = 0, Absolute = 500\<rparr> \<and>
   (\<exists>u. vmUsage (calculateVMPower (\<lambda>x. x) (\<lambda>e. e) vmsEx busyEx idleEx) ''vm1'' ''package'' = Some u \<and>
        Power u = 0 \<and> Delta u = 0)"
proof -
  have r: "map_of (Running vmsEx) ''vm1'' = Some \<lparr>CPUTotalTime = 7, CPUTimeDelta = 2,
      ID = ''vm1'', Name = ''guest'', Hypervisor = ''kvm''\<rparr>"
    by (simp add: vmsEx_def)
  have z: "map_of (Zones (Node idleEx)) ''package'' = Some \<lparr>Power = 0, Delta = 0, Absolute = 500\<rparr>"
    by (simp add: idleEx_def)
  have g: "Power \<lparr>Power = 0, Delta = 0, Absolute = (500::real)\<rparr> = 0 \<or>
           Delta \<lparr>Power = 0, Delta = 0, Absolute = (500::real)\<rparr> = 0 \<or> NodeCPUTimeDelta vmsEx = 0"
    by simp
  from calculateVMPower_zero_guard [OF r z g, of "\<lambda>x. x" "\<lambda>e. e" busyEx] r z
  show ?thesis by simp
qed

subsection \<open>The share of a VM\<close>




text \<open>
  When an \<^verbatim>\<open>Energy\<close> is a number like a \<^verbatim>\<open>float64\<close> and the two conversions change nothing,
  the delta of the VM is the ratio times the delta of the zone.
\<close>

lemma calculateVMPower_share_real:
  assumes "map_of (Running tracked) vid = Some c"
    and "map_of (Zones (Node newSnapshot)) zone = Some nodeZoneUsage"
    and "Power nodeZoneUsage \<noteq> 0" and "Delta nodeZoneUsage \<noteq> 0"
    and "NodeCPUTimeDelta tracked \<noteq> 0"
  shows "\<exists>u. vmUsage (calculateVMPower (\<lambda>x. x) (\<lambda>e. e) tracked prev newSnapshot) vid zone = Some u \<and>
           Power u = CPUTimeDelta c / NodeCPUTimeDelta tracked * Power nodeZoneUsage \<and>
           Delta u = CPUTimeDelta c / NodeCPUTimeDelta tracked * Delta nodeZoneUsage"
  using assms(3-5)
  by (auto simp: vmUsage_calculateVMPower [OF assms(1,2)] vmZoneUsage_def Let_def MicroWatts_def
      split: option.splits)

text \<open>
  When an \<^verbatim>\<open>Energy\<close> is a whole number and the ratio is not negative, the delta of the VM is
  the product without its fraction: it is below the product by less than one unit.
\<close>

lemma calculateVMPower_share_whole:
  assumes "map_of (Running tracked) vid = Some c"
    and "map_of (Zones (Node newSnapshot)) zone = Some nodeZoneUsage"
    and "Power nodeZoneUsage \<noteq> 0" and "Delta nodeZoneUsage \<noteq> 0"
    and "NodeCPUTimeDelta tracked \<noteq> 0"
    and "0 \<le> CPUTimeDelta c / NodeCPUTimeDelta tracked"
  shows "\<exists>u. vmUsage (calculateVMPower (\<lambda>x. nat \<lfloor>x\<rfloor>) real tracked prev newSnapshot) vid zone = Some u \<and>
           real (Delta u) \<le> CPUTimeDelta c / NodeCPUTimeDelta tracked * real (Delta nodeZoneUsage) \<and>
           CPUTimeDelta c / NodeCPUTimeDelta tracked * real (Delta nodeZoneUsage) < real (Delta u) + 1"
proof -
  let ?p = "CPUTimeDelta c / NodeCPUTimeDelta tracked * real (Delta nodeZoneUsage)"
  let ?u = "vmZoneUsage (\<lambda>x. nat \<lfloor>x\<rfloor>) real tracked prev vid c zone nodeZoneUsage"
  have d: "Delta ?u = nat \<lfloor>?p\<rfloor>"
    using assms(3-5) by (simp add: vmZoneUsage_def Let_def split: option.splits)
  from assms(6) have "0 \<le> ?p"
    by (intro mult_nonneg_nonneg) simp_all
  then have "real (nat \<lfloor>?p\<rfloor>) = of_int \<lfloor>?p\<rfloor>"
    by simp
  then have "real (nat \<lfloor>?p\<rfloor>) \<le> ?p" and "?p < real (nat \<lfloor>?p\<rfloor>) + 1"
    by linarith+
  with d vmUsage_calculateVMPower [OF assms(1,2), of "\<lambda>x. nat \<lfloor>x\<rfloor>" real prev]
  show ?thesis
    by simp
qed

section \<open>Eviction of inactive containers: the theorems\<close>

lemma evict_fold:
  "foldl (evictStep sys ker alive) stats xs =
   filter (\<lambda>e. \<not> (fst e \<in> fst ` set xs \<and> fst e \<noteq> sys \<and> fst e \<noteq> ker \<and> map_of alive (fst e) = None))
     stats"
proof (induction xs arbitrary: stats)
  case Nil
  then show ?case by simp
next
  case (Cons x xs)
  show ?case
    unfolding foldl_Cons Cons.IH
    by (auto simp: evictStep_def Let_def AList.delete_eq intro!: filter_cong)
qed

lemma evict_all:
  "foldl (evictStep sys ker alive) stats stats =
   filter (\<lambda>e. fst e = sys \<or> fst e = ker \<or> map_of alive (fst e) \<noteq> None) stats"
  unfolding evict_fold by (rule filter_cong) auto

text \<open>
  Claim C6, as the code has it. The live containers are queried if and only if the number
  of cached containers minus the number of containers found is greater than 10; otherwise
  the map is left as it is. When they are queried and the query succeeds, the containers
  that stay are the two reserved ones and the ones in the live set: a cached container
  that is not in the live set is deleted, also when it is among the containers found.
\<close>

theorem handleInactiveContainers_evicts:
  "(aliveQueried (handleInactiveContainers sys ker query stats found) \<longleftrightarrow>
      10 < int (length stats) - int (length found)) \<and>
   (\<not> 10 < int (length stats) - int (length found) \<longrightarrow>
      ContainerStats (handleInactiveContainers sys ker query stats found) = stats) \<and>
   (10 < int (length stats) - int (length found) \<longrightarrow>
      ContainerStats (handleInactiveContainers sys ker (Inr alive) stats found) =
        filter (\<lambda>e. fst e = sys \<or> fst e = ker \<or> map_of alive (fst e) \<noteq> None) stats)"
  by (simp add: handleInactiveContainers_def maxInactiveContainers_def Let_def evict_all
      split: sum.splits)

text \<open>
  The scenario of the spec: of 15 cached containers, 3 found and a live set of these 3 and
  2 more, the 5 live ones stay and 10 are deleted.
\<close>

theorem handleInactiveContainers_evicts_witness:
  "10 < int (length statsEx) - int (length foundEx) \<and>
   aliveQueried (handleInactiveContainers ''system_processes'' ''kernel_processes''
      (Inr aliveEx) statsEx foundEx) \<and>
   map fst (ContainerStats (handleInactiveContainers ''system_processes'' ''kernel_processes''
      (Inr aliveEx) statsEx foundEx)) = [''c01'', ''c02'', ''c03'', ''c04'', ''c05''] \<and>
   length statsEx -
     length (ContainerStats (handleInactiveContainers ''system_processes'' ''kernel_processes''
       (Inr aliveEx) statsEx foundEx)) = 10"
proof -
  have h: "10 < int (length statsEx) - int (length foundEx)"
    by (simp add: statsEx_def foundEx_def)
  let ?r = "handleInactiveContainers ''system_processes'' ''kernel_processes''
      (Inr aliveEx) statsEx foundEx"
  from handleInactiveContainers_evicts
    [of "''system_processes''" "''kernel_processes''" "Inr aliveEx" statsEx foundEx aliveEx] h
  have q: "aliveQueried ?r"
    and e: "ContainerStats ?r =
      filter (\<lambda>e. fst e = ''system_processes'' \<or> fst e = ''kernel_processes'' \<or>
                  map_of aliveEx (fst e) \<noteq> None) statsEx"
    by blast+
  have "filter (\<lambda>e. fst e = ''system_processes'' \<or> fst e = ''kernel_processes'' \<or>
                  map_of aliveEx (fst e) \<noteq> None) statsEx =
        [(''c01'', ()), (''c02'', ()), (''c03'', ()), (''c04'', ()), (''c05'', ())]"
    by (auto simp: statsEx_def aliveEx_def)
  with e have l: "ContainerStats ?r =
        [(''c01'', ()), (''c02'', ()), (''c03'', ()), (''c04'', ()), (''c05'', ())]"
    by simp
  have n: "length statsEx = 15"
    by (simp add: statsEx_def)
  show ?thesis
    using h q by (simp add: l n)
qed

text \<open>
  The claim as the spec states it has a found container stay. With twelve cached
  containers, of which \<open>c01\<close> is found, and an empty live set, the pass runs and deletes
  \<open>c01\<close> with the others.
\<close>

theorem handleInactiveContainers_deletes_found:
  "map_of foundEx1 ''c01'' = Some True \<and>
   map_of statsEx12 ''c01'' = Some () \<and>
   ContainerStats (handleInactiveContainers ''system_processes'' ''kernel_processes''
      (Inr []) statsEx12 foundEx1) = []"
proof -
  have "10 < int (length statsEx12) - int (length foundEx1)"
    by (simp add: statsEx12_def foundEx1_def)
  then have "ContainerStats (handleInactiveContainers ''system_processes'' ''kernel_processes''
      (Inr []) statsEx12 foundEx1) =
    filter (\<lambda>e. fst e = ''system_processes'' \<or> fst e = ''kernel_processes'') statsEx12"
    by (simp add: handleInactiveContainers_def maxInactiveContainers_def Let_def evict_all)
  then show ?thesis
    by (simp add: statsEx12_def foundEx1_def)
qed

text \<open>
  Claim C7. When the query for the live containers fails, the map of container statistics
  is what it was before the call: no container is deleted. The error goes to the logger
  when the query has been made; the function has no result that could carry it.
\<close>

theorem handleInactiveContainers_query_fails:
  "ContainerStats (handleInactiveContainers sys ker (Inl err) stats found) = stats \<and>
   logged (handleInactiveContainers sys ker (Inl err) stats found) =
     (if 10 < int (length stats) - int (length found) then [err] else [])"
  by (simp add: handleInactiveContainers_def maxInactiveContainers_def Let_def)

section \<open>The resource informer: the theorems\<close>

subsection \<open>The loops over a cache\<close>

lemma sweepStep_entry:
  "sweepStep r d (a, t, c) (k, v) =
   (if map_of r k \<noteq> None then (a + d v, t, c)
    else (a, AList.update k v t, AList.delete k c))"
  by (simp add: sweepStep_def)

lemma sweep_fold_total:
  "fst (foldl (sweepStep r d) (a, t, c) xs) =
   a + sum_list (map (d \<circ> snd) (filter (\<lambda>e. map_of r (fst e) \<noteq> None) xs))"
  by (induction xs arbitrary: a t c) (auto simp: sweepStep_entry)

lemma sweep_fold_cache:
  "snd (snd (foldl (sweepStep r d) (a, t, c) xs)) =
   filter (\<lambda>e. \<not> (fst e \<in> fst ` set xs \<and> map_of r (fst e) = None)) c"
proof (induction xs arbitrary: a t c)
  case Nil
  then show ?case by simp
next
  case (Cons x xs)
  obtain k v where x: "x = (k, v)" by (cases x)
  show ?case
    by (auto simp: x sweepStep_entry Cons.IH AList.delete_eq intro!: filter_cong)
qed

lemma sweep_fold_terminated:
  "fst ` set (fst (snd (foldl (sweepStep r d) (a, t, c) xs))) =
   fst ` set t \<union> {k \<in> fst ` set xs. map_of r k = None}"
proof (induction xs arbitrary: a t c)
  case Nil
  then show ?case by simp
next
  case (Cons x xs)
  obtain k v where x: "x = (k, v)" by (cases x)
  show ?case
    by (auto simp: x sweepStep_entry Cons.IH dom_update)
qed

lemma sweep_total:
  "fst (sweep r d c) = sum_list (map (d \<circ> snd) (filter (\<lambda>e. map_of r (fst e) \<noteq> None) c))"
  by (simp add: sweep_def sweep_fold_total)

lemma sweep_cache:
  "snd (snd (sweep r d c)) = filter (\<lambda>e. map_of r (fst e) \<noteq> None) c"
  unfolding sweep_def sweep_fold_cache by (rule filter_cong) auto

lemma sweep_terminated_keys:
  "fst ` set (fst (snd (sweep r d c))) = {k \<in> fst ` set c. map_of r k = None}"
  by (simp add: sweep_def sweep_fold_terminated)

lemma map_of_filter_running:
  "map_of (filter (\<lambda>e. map_of r (fst e) \<noteq> None) xs) k =
   (if map_of r k \<noteq> None then map_of xs k else None)"
  by (induction xs) auto


subsection \<open>The parts of the informer after Refresh\<close>

lemma Refresh_Inl: "Refresh C V s (Inl e) = (Some (wrapError ''failed to get processes'' e), s)"
  by (simp add: Refresh_def)

lemma Refresh_fst: "fst (Refresh C V s (Inr procs)) = refreshErrs (scanProcs C V s procs)"
  by (simp add: Refresh_def Let_def split: prod.splits)

lemma Refresh_procCache:
  "procCache (snd (Refresh C V s (Inr procs))) =
   snd (snd (sweep (procsRunning (scanProcs C V s procs)) CPUTimeDelta
     (procCache (ri (scanProcs C V s procs)))))"
  by (simp add: Refresh_def Let_def split: prod.splits)

lemma Refresh_processes:
  "processes (snd (Refresh C V s (Inr procs))) =
   \<lparr>NodeCPUTimeDelta = fst (sweep (procsRunning (scanProcs C V s procs)) CPUTimeDelta
       (procCache (ri (scanProcs C V s procs)))),
    Running = procsRunning (scanProcs C V s procs),
    Terminated = fst (snd (sweep (procsRunning (scanProcs C V s procs)) CPUTimeDelta
       (procCache (ri (scanProcs C V s procs)))))\<rparr>"
  by (simp add: Refresh_def Let_def split: prod.splits)

lemma Refresh_containerCache:
  "containerCache (snd (Refresh C V s (Inr procs))) =
   snd (snd (sweep (containersRunning (scanProcs C V s procs)) CPUTimeDelta
     (containerCache (ri (scanProcs C V s procs)))))"
  by (simp add: Refresh_def Let_def split: prod.splits)

lemma Refresh_containers:
  "Running (containers (snd (Refresh C V s (Inr procs)))) = containersRunning (scanProcs C V s procs) \<and>
   Terminated (containers (snd (Refresh C V s (Inr procs)))) =
     fst (snd (sweep (containersRunning (scanProcs C V s procs)) CPUTimeDelta
       (containerCache (ri (scanProcs C V s procs)))))"
  by (simp add: Refresh_def Let_def split: prod.splits)

lemma Refresh_vmCache:
  "vmCache (snd (Refresh C V s (Inr procs))) =
   snd (snd (sweep (vmsRunning (scanProcs C V s procs)) (\<lambda>vm. 0)
     (vmCache (ri (scanProcs C V s procs)))))"
  by (simp add: Refresh_def Let_def split: prod.splits)

lemma Refresh_vms:
  "Running (vms (snd (Refresh C V s (Inr procs)))) = vmsRunning (scanProcs C V s procs) \<and>
   Terminated (vms (snd (Refresh C V s (Inr procs)))) =
     fst (snd (sweep (vmsRunning (scanProcs C V s procs)) (\<lambda>vm. 0)
       (vmCache (ri (scanProcs C V s procs)))))"
  by (simp add: Refresh_def Let_def split: prod.splits)


subsection \<open>One entry of the process table\<close>

lemma foldl_invariant:
  assumes "P s" and "\<And>s x. P s \<Longrightarrow> x \<in> set xs \<Longrightarrow> P (f s x)"
  shows "P (foldl f s xs)"
  using assms by (induction xs arbitrary: s) auto

lemma in_keys_iff: "k \<in> fst ` set al \<longleftrightarrow> map_of al k \<noteq> None"
  by (simp add: map_of_eq_None_iff)

lemma map_of_Some_keys: "(\<exists>v. map_of al k = Some v) \<longleftrightarrow> k \<in> fst ` set al"
  by (metis map_of_eq_None_iff not_None_eq)

lemmas keys_simps = map_of_Some_keys map_of_eq_None_iff

lemma update_absent: "k \<notin> fst ` set al \<Longrightarrow> AList.update k v al = al @ [(k, v)]"
  by (induction al) auto

lemma updateProcessCache_frame:
  "containerCache (fst (updateProcessCache s p)) = containerCache s"
  "vmCache (fst (updateProcessCache s p)) = vmCache s"
  by (simp_all add: updateProcessCache_def Let_def split: option.splits prod.splits sum.splits)

lemma updateProcessCache_new:
  assumes "map_of (procCache s) (proc_PID p) = None"
  shows "updateProcessCache s p =
         (case newProcess p of
            Inl err \<Rightarrow> (s, Inl err)
          | Inr newProc \<Rightarrow> (s\<lparr>procCache := AList.update (proc_PID p) newProc (procCache s)\<rparr>, Inr newProc))"
  using assms by (simp add: updateProcessCache_def Let_def)

lemma updateProcessCache_keys:
  "fst ` set (procCache (fst (updateProcessCache s p))) =
   fst ` set (procCache s) \<union> (if isl (newProcess p) then {} else {proc_PID p})"
  by (auto simp: updateProcessCache_def Let_def dom_update in_keys_iff
      split: option.splits prod.splits sum.splits)

lemma updateProcessCache_result:
  "snd (updateProcessCache s p) = Inr proc \<Longrightarrow>
   map_of (procCache (fst (updateProcessCache s p))) (proc_PID p) = Some proc"
  by (auto simp: updateProcessCache_def Let_def update_conv'
      split: option.splits prod.splits sum.splits)

lemma updateProcessCache_other:
  "k \<noteq> proc_PID p \<Longrightarrow>
   map_of (procCache (fst (updateProcessCache s p))) k = map_of (procCache s) k"
  by (auto simp: updateProcessCache_def Let_def update_conv'
      split: option.splits prod.splits sum.splits)

lemma updateProcessCache_distinct:
  "distinct (map fst (procCache s)) \<Longrightarrow>
   distinct (map fst (procCache (fst (updateProcessCache s p))))"
  by (auto simp: updateProcessCache_def Let_def distinct_update
      split: option.splits prod.splits sum.splits)

lemma shared_lookup:
  "map_of (shared cache k running) k' =
   (if k' = k \<and> map_of running k \<noteq> None \<and> map_of cache k \<noteq> None then map_of cache k
    else map_of running k')"
  by (auto simp: shared_def update_conv' split: option.splits)

lemma shared_keys: "fst ` set (shared cache k running) = fst ` set running"
  by (auto simp: shared_def dom_update in_keys_iff split: option.splits)

lemma shared_distinct: "distinct (map fst running) \<Longrightarrow> distinct (map fst (shared cache k running))"
  by (auto simp: shared_def distinct_update split: option.splits)

lemma scanProc_procCache:
  "procCache (ri (scanProc C V st p)) = procCache (fst (updateProcessCache (ri st) p))"
  by (simp add: scanProc_def Let_def updateContainerCache_def updateVMCache_def
      split: prod.splits sum.splits option.splits)

lemma scanProc_procsRunning:
  "procsRunning (scanProc C V st p) =
   (case snd (updateProcessCache (ri st) p) of
      Inl err \<Rightarrow> shared (procCache (fst (updateProcessCache (ri st) p))) (proc_PID p) (procsRunning st)
    | Inr proc \<Rightarrow> AList.update (proc_PID p) proc (procsRunning st))"
  by (simp add: scanProc_def Let_def updateContainerCache_def updateVMCache_def
      split: prod.splits sum.splits option.splits)

lemma scanProc_refreshErrs:
  "refreshErrs (scanProc C V st p) =
   (case snd (updateProcessCache (ri st) p) of
      Inl err \<Rightarrow> errors_Join [refreshErrs st, Some err]
    | Inr proc \<Rightarrow> refreshErrs st)"
  by (simp add: scanProc_def Let_def updateContainerCache_def updateVMCache_def
      split: prod.splits sum.splits option.splits)

lemma scanProc_containers:
  "(containerCache (ri (scanProc C V st p)), containersRunning (scanProc C V st p)) =
   (case snd (updateProcessCache (ri st) p) of
      Inl err \<Rightarrow> (containerCache (ri st), containersRunning st)
    | Inr proc \<Rightarrow>
        (case Container proc of
           Some c \<Rightarrow> ownerUpdate C (containerCache (ri st)) (containersRunning st) c (CPUTimeDelta proc)
         | None \<Rightarrow> (containerCache (ri st), containersRunning st)))"
proof -
  obtain s1 r where u: "updateProcessCache (ri st) p = (s1, r)"
    by (cases "updateProcessCache (ri st) p")
  have c: "containerCache s1 = containerCache (ri st)"
    using updateProcessCache_frame(1) [of "ri st" p] by (simp add: u)
  show ?thesis
    by (simp add: scanProc_def Let_def u c updateContainerCache_def updateVMCache_def ownerUpdate_def
        addCPUTime_def split: sum.splits option.splits)
qed

lemma scanProc_vms:
  "(vmCache (ri (scanProc C V st p)), vmsRunning (scanProc C V st p)) =
   (case snd (updateProcessCache (ri st) p) of
      Inl err \<Rightarrow> (vmCache (ri st), vmsRunning st)
    | Inr proc \<Rightarrow>
        (case Container proc of
           Some c \<Rightarrow> (vmCache (ri st), vmsRunning st)
         | None \<Rightarrow>
           (case VirtualMachine proc of
              Some vm \<Rightarrow> ownerUpdate V (vmCache (ri st)) (vmsRunning st) vm (CPUTimeDelta proc)
            | None \<Rightarrow> (vmCache (ri st), vmsRunning st))))"
proof -
  obtain s1 r where u: "updateProcessCache (ri st) p = (s1, r)"
    by (cases "updateProcessCache (ri st) p")
  have c: "vmCache s1 = vmCache (ri st)"
    using updateProcessCache_frame(2) [of "ri st" p] by (simp add: u)
  show ?thesis
    by (simp add: scanProc_def Let_def u c updateContainerCache_def updateVMCache_def ownerUpdate_def
        addCPUTime_def split: sum.splits option.splits)
qed

lemma scanProc_procsRunning_other:
  "proc_PID q \<noteq> k \<Longrightarrow> map_of (procsRunning (scanProc C V st q)) k = map_of (procsRunning st) k"
  by (auto simp: scanProc_procsRunning shared_lookup update_conv' split: sum.splits)

lemma scanProc_fold_procsRunning_other:
  "\<forall>q \<in> set ys. proc_PID q \<noteq> k \<Longrightarrow>
   map_of (procsRunning (foldl (scanProc C V) st ys)) k = map_of (procsRunning st) k"
  by (induction ys arbitrary: st) (simp_all add: scanProc_procsRunning_other)

lemma scanProc_procsRunning_keys:
  "fst ` set (procsRunning (scanProc C V st p)) \<subseteq> insert (proc_PID p) (fst ` set (procsRunning st))"
  by (auto simp: scanProc_procsRunning shared_keys dom_update split: sum.splits)

lemma scanProc_procsRunning_fresh:
  assumes "proc_PID p \<notin> fst ` set (procsRunning st)"
  shows "procsRunning (scanProc C V st p) =
         (case snd (updateProcessCache (ri st) p) of
            Inl err \<Rightarrow> procsRunning st
          | Inr proc \<Rightarrow> AList.update (proc_PID p) proc (procsRunning st))"
proof -
  from assms have "map_of (procsRunning st) (proc_PID p) = None"
    by (simp add: map_of_eq_None_iff)
  then show ?thesis
    by (simp add: scanProc_procsRunning shared_def split: sum.splits)
qed

lemma scanProc_fold_cache_keys:
  "fst ` set (procCache (ri (foldl (scanProc C V) st procs))) =
   fst ` set (procCache (ri st)) \<union> {proc_PID q |q. q \<in> set procs \<and> \<not> isl (newProcess q)}"
proof (induction procs arbitrary: st)
  case Nil
  then show ?case by simp
next
  case (Cons q procs)
  show ?case
    unfolding foldl_Cons Cons.IH scanProc_procCache updateProcessCache_keys
    by auto
qed

lemma newProcess_fails_iff:
  "isl (newProcess p) \<longleftrightarrow>
   isl (proc_CPUTime p) \<or> isl (proc_Comm p) \<or> isl (proc_Executable p) \<or>
   isl (computeTypeInfoFromProc p)"
  by (auto simp: newProcess_def populateProcessFields_def Let_def split: sum.splits)

lemma newProcess_delta:
  assumes "newProcess p = Inr np" and "proc_CPUTime p = Inr cpu"
  shows "CPUTimeDelta np = cpu" and "CPUTotalTime np = cpu"
  using assms
  by (auto simp: newProcess_def populateProcessFields_def Let_def split: sum.splits if_splits)

lemma classification_fails:
  assumes "\<not> isl (proc_CPUTime p)" and "\<not> isl (proc_Comm p)" and "\<not> isl (proc_Executable p)"
    and "containerInfoFromProc p = Inl e1" and "vmInfoFromProc p = Inl e2"
  shows "newProcess p = Inl (wrapError ''failed to detect process type'' (joinError [e1, e2]))"
  using assms
  by (auto simp: newProcess_def populateProcessFields_def computeTypeInfoFromProc_def Let_def
      err_of_def nonNil_def split: sum.splits)


subsection \<open>The running maps point into the caches\<close>

lemma scanProc_procs_agree:
  assumes "map_of (procsRunning st) \<subseteq>\<^sub>m map_of (procCache (ri st))"
  shows "map_of (procsRunning (scanProc C V st p)) \<subseteq>\<^sub>m map_of (procCache (ri (scanProc C V st p)))"
proof (cases "snd (updateProcessCache (ri st) p)")
  case (Inl err)
  have keys: "fst ` set (procCache (ri st)) \<subseteq> fst ` set (procCache (fst (updateProcessCache (ri st) p)))"
    by (auto simp: updateProcessCache_keys)
  show ?thesis
    unfolding map_le_def
  proof
    fix k assume k: "k \<in> dom (map_of (procsRunning (scanProc C V st p)))"
    then have kr: "map_of (procsRunning st) k \<noteq> None"
      by (auto simp: scanProc_procsRunning Inl shared_lookup split: if_splits)
    with assms have kc: "map_of (procCache (ri st)) k = map_of (procsRunning st) k"
      by (auto simp: map_le_def dom_def)
    show "map_of (procsRunning (scanProc C V st p)) k = map_of (procCache (ri (scanProc C V st p))) k"
    proof (cases "k = proc_PID p")
      case True
      from kr kc have "k \<in> fst ` set (procCache (ri st))"
        by (simp add: in_keys_iff)
      with keys have "k \<in> fst ` set (procCache (fst (updateProcessCache (ri st) p)))"
        by blast
      then have "map_of (procCache (fst (updateProcessCache (ri st) p))) k \<noteq> None"
        by (simp add: map_of_eq_None_iff)
      with kr True show ?thesis
        by (simp add: scanProc_procsRunning scanProc_procCache Inl shared_lookup)
    next
      case False
      with kc show ?thesis
        by (simp add: scanProc_procsRunning scanProc_procCache Inl shared_lookup
            updateProcessCache_other)
    qed
  qed
next
  case (Inr proc)
  show ?thesis
    unfolding map_le_def
  proof
    fix k assume k: "k \<in> dom (map_of (procsRunning (scanProc C V st p)))"
    show "map_of (procsRunning (scanProc C V st p)) k = map_of (procCache (ri (scanProc C V st p))) k"
    proof (cases "k = proc_PID p")
      case True
      then show ?thesis
        by (simp add: scanProc_procsRunning scanProc_procCache Inr update_conv'
            updateProcessCache_result [OF Inr])
    next
      case False
      with k have "k \<in> dom (map_of (procsRunning st))"
        by (auto simp: scanProc_procsRunning Inr update_conv')
      with assms have "map_of (procCache (ri st)) k = map_of (procsRunning st) k"
        by (auto simp: map_le_def)
      with False show ?thesis
        by (simp add: scanProc_procsRunning scanProc_procCache Inr update_conv'
            updateProcessCache_other)
    qed
  qed
qed

lemma ownerUpdate_agree:
  assumes "map_of running \<subseteq>\<^sub>m map_of cache"
  shows "map_of (snd (ownerUpdate Clone cache running c d)) \<subseteq>\<^sub>m
         map_of (fst (ownerUpdate Clone cache running c d))"
  using assms by (auto simp: ownerUpdate_def Let_def update_conv' map_le_def)

lemma scanProc_containers_agree:
  assumes "map_of (containersRunning st) \<subseteq>\<^sub>m map_of (containerCache (ri st))"
  shows "map_of (containersRunning (scanProc C V st p)) \<subseteq>\<^sub>m
         map_of (containerCache (ri (scanProc C V st p)))"
proof -
  have "map_of (snd (containerCache (ri (scanProc C V st p)), containersRunning (scanProc C V st p))) \<subseteq>\<^sub>m
        map_of (fst (containerCache (ri (scanProc C V st p)), containersRunning (scanProc C V st p)))"
    unfolding scanProc_containers
    using assms by (auto simp: ownerUpdate_agree split: sum.splits option.splits)
  then show ?thesis by simp
qed

lemma scanProc_vms_agree:
  assumes "map_of (vmsRunning st) \<subseteq>\<^sub>m map_of (vmCache (ri st))"
  shows "map_of (vmsRunning (scanProc C V st p)) \<subseteq>\<^sub>m map_of (vmCache (ri (scanProc C V st p)))"
proof -
  have "map_of (snd (vmCache (ri (scanProc C V st p)), vmsRunning (scanProc C V st p))) \<subseteq>\<^sub>m
        map_of (fst (vmCache (ri (scanProc C V st p)), vmsRunning (scanProc C V st p)))"
    unfolding scanProc_vms
    using assms by (auto simp: ownerUpdate_agree split: sum.splits option.splits)
  then show ?thesis by simp
qed

lemma scanProcs_agree:
  "map_of (procsRunning (scanProcs C V s procs)) \<subseteq>\<^sub>m map_of (procCache (ri (scanProcs C V s procs)))"
  "map_of (containersRunning (scanProcs C V s procs)) \<subseteq>\<^sub>m
   map_of (containerCache (ri (scanProcs C V s procs)))"
  "map_of (vmsRunning (scanProcs C V s procs)) \<subseteq>\<^sub>m map_of (vmCache (ri (scanProcs C V s procs)))"
  unfolding scanProcs_def
  by (rule foldl_invariant; simp add: scanProc_procs_agree scanProc_containers_agree
      scanProc_vms_agree)+

lemma sweep_consistent:
  assumes "map_of running \<subseteq>\<^sub>m map_of cache"
  shows "fst ` set (snd (snd (sweep running d cache))) = fst ` set running"
    and "fst ` set running \<inter> fst ` set (fst (snd (sweep running d cache))) = {}"
proof -
  from assms have "dom (map_of running) \<subseteq> dom (map_of cache)"
    by (rule map_le_implies_dom_le)
  then have sub: "fst ` set running \<subseteq> fst ` set cache"
    by (simp add: dom_map_of_conv_image_fst)
  have "fst ` set (filter (\<lambda>e. map_of running (fst e) \<noteq> None) cache) =
        fst ` set cache \<inter> fst ` set running"
    by (auto simp: keys_simps)
  with sub show "fst ` set (snd (snd (sweep running d cache))) = fst ` set running"
    by (auto simp: sweep_cache)
  show "fst ` set running \<inter> fst ` set (fst (snd (sweep running d cache))) = {}"
    by (auto simp: sweep_terminated_keys keys_simps)
qed

lemma sweep_cache_map:
  assumes "map_of running \<subseteq>\<^sub>m map_of cache"
  shows "map_of (snd (snd (sweep running d cache))) = map_of running"
proof
  fix k
  show "map_of (snd (snd (sweep running d cache))) k = map_of running k"
  proof (cases "map_of running k")
    case None
    then show ?thesis
      unfolding sweep_cache map_of_filter_running by simp
  next
    case (Some v)
    with assms have "map_of cache k = Some v"
      by (auto simp: map_le_def dom_def)
    with Some show ?thesis
      unfolding sweep_cache map_of_filter_running by simp
  qed
qed

lemma Refresh_cache_is_running:
  "map_of (procCache (snd (Refresh C V s (Inr procs)))) =
   map_of (Running (processes (snd (Refresh C V s (Inr procs)))))"
  by (simp add: Refresh_procCache Refresh_processes sweep_cache_map [OF scanProcs_agree(1)])

lemma scanProc_distinct:
  assumes "distinct (map fst (procCache (ri st))) \<and> distinct (map fst (procsRunning st))"
  shows "distinct (map fst (procCache (ri (scanProc C V st p)))) \<and>
         distinct (map fst (procsRunning (scanProc C V st p)))"
  using assms
  by (auto simp: scanProc_procCache scanProc_procsRunning updateProcessCache_distinct
      shared_distinct distinct_update split: sum.splits)

lemma scanProcs_distinct:
  assumes "distinct (map fst (procCache s))"
  shows "distinct (map fst (procCache (ri (scanProcs C V s procs)))) \<and>
         distinct (map fst (procsRunning (scanProcs C V s procs)))"
  unfolding scanProcs_def
  by (rule foldl_invariant) (simp_all add: assms scanProc_distinct)


text \<open>The process cache stays a map: \<^verbatim>\<open>Refresh\<close> keeps its keys distinct.\<close>

lemma Refresh_distinct:
  assumes "distinct (map fst (procCache s))"
  shows "distinct (map fst (procCache (snd (Refresh C V s (Inr procs)))))"
  using scanProcs_distinct [OF assms, of C V procs]
  by (simp add: Refresh_procCache sweep_cache distinct_map_filter)

subsection \<open>The examples, evaluated\<close>

lemmas refresh_defs =
  Refresh_def scanProcs_def scanProc_def updateProcessCache_def newProcess_def
  populateProcessFields_def computeTypeInfoFromProc_def err_of_def nonNil_def errors_Join_def
  updateContainerCache_def updateVMCache_def shared_def sweep_def sweepStep_def Let_def
  NewInformer_def

lemma Refresh_procNew:
  "Refresh (\<lambda>c. c) (\<lambda>v. v) NewInformer (Inr [procNew]) =
   (None,
    \<lparr>procCache = [(7, \<lparr>CPUTotalTime = 5, CPUTimeDelta = 5, PID = 7, Comm = ''sh'',
                       Exe = ''/bin/sh'', Type = RegularProcess, Container = None,
                       VirtualMachine = None\<rparr>)],
     processes = \<lparr>NodeCPUTimeDelta = 5,
        Running = [(7, \<lparr>CPUTotalTime = 5, CPUTimeDelta = 5, PID = 7, Comm = ''sh'',
                       Exe = ''/bin/sh'', Type = RegularProcess, Container = None,
                       VirtualMachine = None\<rparr>)],
        Terminated = []\<rparr>,
     containerCache = [],
     containers = \<lparr>NodeCPUTimeDelta = 5, Running = [], Terminated = []\<rparr>,
     vmCache = [],
     vms = \<lparr>NodeCPUTimeDelta = 5, Running = [], Terminated = []\<rparr>\<rparr>)"
  by (simp add: refresh_defs procNew_def)

lemma Refresh_procReused:
  "NodeCPUTimeDelta (processes (snd (Refresh (\<lambda>c. c) (\<lambda>v. v)
     (snd (Refresh (\<lambda>c. c) (\<lambda>v. v) NewInformer (Inr [procNew]))) (Inr [procReused])))) = - 2"
  unfolding Refresh_procNew snd_conv
  by (simp add: refresh_defs procReused_def)

lemma Refresh_procBad:
  "Refresh (\<lambda>c. c) (\<lambda>v. v) NewInformer (Inr [procBad]) =
   (Some (joinError [wrapError ''failed to detect process type''
                       (joinError [errorString ''cgroup'', errorString ''cmdline''])]),
    NewInformer)"
  by (simp add: refresh_defs procBad_def)

lemma Refresh_procGone:
  "snd (Refresh (\<lambda>c. c) (\<lambda>v. v) NewInformer (Inr [procNew, procGone])) =
   snd (Refresh (\<lambda>c. c) (\<lambda>v. v) NewInformer (Inr [procNew]))"
  unfolding Refresh_procNew snd_conv
  by (simp add: refresh_defs procNew_def procGone_def)

lemma Refresh_tableEx:
  "Refresh (\<lambda>c. c) (\<lambda>v. v) informerEx (Inr tableEx) =
   (None,
    \<lparr>procCache = [(11, workerEx 11 (104 / 10) (4 / 10)), (12, workerEx 12 (206 / 10) (6 / 10)),
                  (21, qemuEx 102 2)],
     processes = \<lparr>NodeCPUTimeDelta = 3,
        Running = [(11, workerEx 11 (104 / 10) (4 / 10)), (12, workerEx 12 (206 / 10) (6 / 10)),
                   (21, qemuEx 102 2)],
        Terminated = []\<rparr>,
     containerCache = [(''c1'', webEx\<lparr>CPUTotalTime := 31, CPUTimeDelta := 1\<rparr>)],
     containers = \<lparr>NodeCPUTimeDelta = 3,
        Running = [(''c1'', webEx\<lparr>CPUTotalTime := 31, CPUTimeDelta := 1\<rparr>)],
        Terminated = []\<rparr>,
     vmCache = [(''vm1'', guestEx\<lparr>CPUTotalTime := 102, CPUTimeDelta := 2\<rparr>)],
     vms = \<lparr>NodeCPUTimeDelta = 3,
        Running = [(''vm1'', guestEx\<lparr>CPUTotalTime := 102, CPUTimeDelta := 2\<rparr>)],
        Terminated = []\<rparr>\<rparr>)"
  by (simp add: refresh_defs informerEx_def tableEx_def readingEx_def workerEx_def webEx_def
      qemuReadingEx_def qemuEx_def guestEx_def)


lemma newProcess_procRetry:
  "newProcess procRetry =
   Inr \<lparr>CPUTotalTime = 6, CPUTimeDelta = 6, PID = 1, Comm = ''sh'', Exe = ''/bin/sh'',
        Type = RegularProcess, Container = None, VirtualMachine = None\<rparr>"
  by (simp add: refresh_defs procRetry_def)

subsection \<open>The CPU-time delta of the node\<close>

lemma sum_list_same_map:
  assumes "distinct (map fst xs)" and "distinct (map fst ys)" and "map_of xs = map_of ys"
  shows "sum_list (map f xs) = (sum_list (map f ys) :: real)"
proof -
  from assms have "set xs = set ys"
    by (simp add: map_of_inject_set)
  moreover from assms(1,2) have "distinct xs" "distinct ys"
    by (simp_all add: distinct_map)
  ultimately show ?thesis
    by (simp add: sum_list_distinct_conv_sum_set)
qed

lemma nodeCPUDelta_cache_sum:
  "NodeCPUTimeDelta (processes (snd (Refresh C V s (Inr procs)))) =
   sum_list (map (CPUTimeDelta \<circ> snd) (procCache (snd (Refresh C V s (Inr procs)))))"
  by (simp add: Refresh_procCache Refresh_processes sweep_cache sweep_total)

lemma nodeCPUDelta_running_sum:
  assumes "distinct (map fst (procCache s))"
  shows "NodeCPUTimeDelta (processes (snd (Refresh C V s (Inr procs)))) =
         sum_list (map (CPUTimeDelta \<circ> snd) (Running (processes (snd (Refresh C V s (Inr procs))))))"
proof -
  let ?st = "scanProcs C V s procs"
  from scanProcs_distinct [OF assms, of C V procs]
  have d: "distinct (map fst (procCache (ri ?st)))" "distinct (map fst (procsRunning ?st))"
    by simp_all
  have "distinct (map fst (procCache (snd (Refresh C V s (Inr procs)))))"
    using d(1) by (simp add: Refresh_procCache sweep_cache distinct_map_filter)
  moreover have "distinct (map fst (Running (processes (snd (Refresh C V s (Inr procs))))))"
    using d(2) by (simp add: Refresh_processes)
  ultimately show ?thesis
    unfolding nodeCPUDelta_cache_sum
    by (rule sum_list_same_map) (rule Refresh_cache_is_running)
qed

lemma Refresh_new_process_running:
  assumes "p \<in> set procs" and "distinct (map proc_PID procs)"
    and "proc_PID p \<notin> fst ` set (procCache s)" and "newProcess p = Inr np"
  shows "map_of (Running (processes (snd (Refresh C V s (Inr procs))))) (proc_PID p) = Some np"
proof -
  let ?init = "\<lparr>ri = s, procsRunning = [], containersRunning = [], vmsRunning = [],
       refreshErrs = None\<rparr>"
  from assms(1) obtain xs ys where split: "procs = xs @ p # ys"
    by (auto simp: in_set_conv_decomp)
  let ?st1 = "foldl (scanProc C V) ?init xs"
  from assms(2) have "proc_PID p \<notin> proc_PID ` set xs" and "proc_PID p \<notin> proc_PID ` set ys"
    by (auto simp: split)
  then have nx: "\<forall>q \<in> set xs. proc_PID q \<noteq> proc_PID p"
    and ny: "\<forall>q \<in> set ys. proc_PID q \<noteq> proc_PID p"
    by (metis imageI)+
  from nx assms(3) have "proc_PID p \<notin> fst ` set (procCache (ri ?st1))"
    unfolding scanProc_fold_cache_keys by auto
  then have "map_of (procCache (ri ?st1)) (proc_PID p) = None"
    by (simp add: map_of_eq_None_iff)
  then have "snd (updateProcessCache (ri ?st1) p) = Inr np"
    by (simp add: updateProcessCache_new assms(4))
  then have "map_of (procsRunning (scanProc C V ?st1 p)) (proc_PID p) = Some np"
    by (simp add: scanProc_procsRunning update_conv')
  with ny have "map_of (procsRunning (foldl (scanProc C V) (scanProc C V ?st1 p) ys)) (proc_PID p) = Some np"
    by (simp add: scanProc_fold_procsRunning_other)
  then show ?thesis
    by (simp add: Refresh_processes scanProcs_def split)
qed


text \<open>
  Claim C4, as the code has it. The second loop of \<^verbatim>\<open>Refresh\<close> runs over the process cache
  after the first loop has put the new processes into it. So the published CPU-time delta
  of the node is the sum of the CPU-time deltas of all running processes, the ones observed
  for the first time included; such a process is running with the process that
  \<^verbatim>\<open>newProcess\<close> has made of it, whose delta is its whole CPU time. The delta of the node is
  0 when no process is running. The process cache is a Go map and the process table lists
  a PID once.
\<close>

theorem Refresh_NodeCPUTimeDelta:
  assumes "distinct (map fst (procCache s))" and "distinct (map proc_PID procs)"
  shows "NodeCPUTimeDelta (processes (snd (Refresh C V s (Inr procs)))) =
           sum_list (map (CPUTimeDelta \<circ> snd) (Running (processes (snd (Refresh C V s (Inr procs)))))) \<and>
         (\<forall>p \<in> set procs. \<forall>np cpu.
            proc_PID p \<notin> fst ` set (procCache s) \<longrightarrow> newProcess p = Inr np \<longrightarrow>
            proc_CPUTime p = Inr cpu \<longrightarrow>
            map_of (Running (processes (snd (Refresh C V s (Inr procs))))) (proc_PID p) = Some np \<and>
            CPUTimeDelta np = cpu) \<and>
         (Running (processes (snd (Refresh C V s (Inr procs)))) = [] \<longrightarrow>
            NodeCPUTimeDelta (processes (snd (Refresh C V s (Inr procs)))) = 0)"
proof -
  have "NodeCPUTimeDelta (processes (snd (Refresh C V s (Inr procs)))) = 0"
    if "Running (processes (snd (Refresh C V s (Inr procs)))) = []"
    using nodeCPUDelta_running_sum [OF assms(1), of C V procs] that by simp
  with nodeCPUDelta_running_sum [OF assms(1)] Refresh_new_process_running [OF _ assms(2)]
    newProcess_delta(1)
  show ?thesis
    by blast
qed


theorem Refresh_NodeCPUTimeDelta_witness:
  "distinct (map fst (procCache NewInformer)) \<and> distinct (map proc_PID [procNew]) \<and>
   NodeCPUTimeDelta (processes (snd (Refresh (\<lambda>c. c) (\<lambda>v. v) NewInformer (Inr [procNew])))) = 5 \<and>
   sum_list (map (CPUTimeDelta \<circ> snd)
     (Running (processes (snd (Refresh (\<lambda>c. c) (\<lambda>v. v) NewInformer (Inr [procNew])))))) = 5 \<and>
   newProcess procNew = Inr \<lparr>CPUTotalTime = 5, CPUTimeDelta = 5, PID = 7, Comm = ''sh'',
     Exe = ''/bin/sh'', Type = RegularProcess, Container = None, VirtualMachine = None\<rparr> \<and>
   map_of (Running (processes (snd (Refresh (\<lambda>c. c) (\<lambda>v. v) NewInformer (Inr [procNew])))))
     (proc_PID procNew) =
   Some \<lparr>CPUTotalTime = 5, CPUTimeDelta = 5, PID = 7, Comm = ''sh'',
     Exe = ''/bin/sh'', Type = RegularProcess, Container = None, VirtualMachine = None\<rparr>"
proof -
  have d1: "distinct (map fst (procCache NewInformer))"
    by (simp add: NewInformer_def)
  have d2: "distinct (map proc_PID [procNew])"
    by simp
  have n: "newProcess procNew = Inr \<lparr>CPUTotalTime = 5, CPUTimeDelta = 5, PID = 7, Comm = ''sh'',
     Exe = ''/bin/sh'', Type = RegularProcess, Container = None, VirtualMachine = None\<rparr>"
    by (simp add: refresh_defs procNew_def)
  have c: "proc_PID procNew \<notin> fst ` set (procCache NewInformer)"
    by (simp add: NewInformer_def)
  have r: "proc_CPUTime procNew = Inr 5"
    by (simp add: procNew_def)
  from Refresh_NodeCPUTimeDelta [OF d1 d2, of "\<lambda>c. c" "\<lambda>v. v"]
  have s: "NodeCPUTimeDelta (processes (snd (Refresh (\<lambda>c. c) (\<lambda>v. v) NewInformer (Inr [procNew])))) =
      sum_list (map (CPUTimeDelta \<circ> snd)
        (Running (processes (snd (Refresh (\<lambda>c. c) (\<lambda>v. v) NewInformer (Inr [procNew]))))))"
    and m: "map_of (Running (processes (snd (Refresh (\<lambda>c. c) (\<lambda>v. v) NewInformer (Inr [procNew])))))
      (proc_PID procNew) =
      Some \<lparr>CPUTotalTime = 5, CPUTimeDelta = 5, PID = 7, Comm = ''sh'',
        Exe = ''/bin/sh'', Type = RegularProcess, Container = None, VirtualMachine = None\<rparr>"
    using c n r by auto
  have v: "NodeCPUTimeDelta (processes (snd (Refresh (\<lambda>c. c) (\<lambda>v. v) NewInformer (Inr [procNew])))) = 5"
    by (simp add: Refresh_procNew)
  from d1 d2 n m v s show ?thesis
    by simp
qed

text \<open>
  The claim as the spec states it has a process that is observed for the first time add
  nothing, and the delta of the node never negative. In the first cycle of an informer the
  one process of the table is new, no process of an earlier cycle is running, and the
  delta of the node is the 5 s of the new process. When the next table lists its PID with
  3 s of CPU time, the delta of the node is negative.
\<close>

theorem Refresh_counts_new_process:
  "procCache NewInformer = [] \<and>
   NodeCPUTimeDelta (processes (snd (Refresh (\<lambda>c. c) (\<lambda>v. v) NewInformer (Inr [procNew])))) = 5 \<and>
   NodeCPUTimeDelta (processes (snd (Refresh (\<lambda>c. c) (\<lambda>v. v)
     (snd (Refresh (\<lambda>c. c) (\<lambda>v. v) NewInformer (Inr [procNew]))) (Inr [procReused])))) = - 2"
proof -
  have "procCache NewInformer = []"
    by (simp add: NewInformer_def)
  moreover have "NodeCPUTimeDelta (processes (snd (Refresh (\<lambda>c. c) (\<lambda>v. v) NewInformer
      (Inr [procNew])))) = 5"
    by (simp add: Refresh_procNew)
  ultimately show ?thesis
    by (simp add: Refresh_procReused)
qed

subsection \<open>The CPU-time delta of a container and of a VM\<close>

lemma memberCPUTimeDelta_snoc:
  "memberCPUTimeDelta member (procs @ [(pid, proc)]) =
   memberCPUTimeDelta member procs + (if member proc then CPUTimeDelta proc else 0)"
  by (simp add: memberCPUTimeDelta_def)

lemma memberCPUTimeDelta_none:
  "\<forall>e \<in> set procs. \<not> member (snd e) \<Longrightarrow> memberCPUTimeDelta member procs = 0"
  by (induction procs) (auto simp: memberCPUTimeDelta_def)

lemma accounted_other:
  assumes "accounted member cache running procs" and "pid \<notin> fst ` set procs"
    and "\<forall>k. \<not> member k proc"
  shows "accounted member cache running (AList.update pid proc procs)"
  using assms
  by (auto simp: accounted_def update_absent memberCPUTimeDelta_snoc)

lemma addCPUTime_delta:
  "CPUTimeDelta (addCPUTime reset d cached) = (if reset then 0 else CPUTimeDelta cached) + d"
  by (simp add: addCPUTime_def Let_def)

lemma accounted_member:
  assumes acc: "accounted member cache running procs" and "pid \<notin> fst ` set procs"
    and m: "member (ID c) proc" and o: "\<forall>k. k \<noteq> ID c \<longrightarrow> \<not> member k proc"
  shows "accounted member (fst (ownerUpdate Clone cache running c (CPUTimeDelta proc)))
           (snd (ownerUpdate Clone cache running c (CPUTimeDelta proc)))
           (AList.update pid proc procs)"
proof -
  let ?cached = "addCPUTime (map_of running (ID c) = None) (CPUTimeDelta proc)
                    (case map_of cache (ID c) of Some x \<Rightarrow> x | None \<Rightarrow> Clone c)"
  have ou: "ownerUpdate Clone cache running c (CPUTimeDelta proc) =
            (AList.update (ID c) ?cached cache, AList.update (ID c) ?cached running)"
    by (simp add: ownerUpdate_def Let_def)
  have up: "AList.update pid proc procs = procs @ [(pid, proc)]"
    using assms(2) by (rule update_absent)
  have d: "CPUTimeDelta ?cached = memberCPUTimeDelta (member (ID c)) procs + CPUTimeDelta proc"
  proof (cases "map_of running (ID c)")
    case None
    with acc have "\<forall>e \<in> set procs. \<not> member (ID c) (snd e)"
      by (simp add: accounted_def)
    then have "memberCPUTimeDelta (member (ID c)) procs = 0"
      by (rule memberCPUTimeDelta_none)
    with None show ?thesis
      by (simp add: addCPUTime_delta)
  next
    case (Some x)
    with acc have "map_of cache (ID c) = Some x"
      and "CPUTimeDelta x = memberCPUTimeDelta (member (ID c)) procs"
      by (auto simp: accounted_def)
    with Some show ?thesis
      by (simp add: addCPUTime_delta)
  qed
  show ?thesis
    unfolding ou up fst_conv snd_conv accounted_def
  proof (intro conjI allI impI ballI)
    fix k x assume r: "map_of (AList.update (ID c) ?cached running) k = Some x"
    show "map_of (AList.update (ID c) ?cached cache) k = Some x"
    proof (cases "k = ID c")
      case True
      with r show ?thesis by (simp add: update_conv')
    next
      case False
      with r acc show ?thesis by (simp add: update_conv' accounted_def)
    qed
    show "CPUTimeDelta x = memberCPUTimeDelta (member k) (procs @ [(pid, proc)])"
    proof (cases "k = ID c")
      case True
      with r have "x = ?cached" by (simp add: update_conv')
      with d m True show ?thesis
        by (simp add: memberCPUTimeDelta_snoc)
    next
      case False
      with r acc have "CPUTimeDelta x = memberCPUTimeDelta (member k) procs"
        by (simp add: update_conv' accounted_def)
      with False o show ?thesis
        by (simp add: memberCPUTimeDelta_snoc)
    qed
  next
    fix k e assume n: "map_of (AList.update (ID c) ?cached running) k = None"
      and e: "e \<in> set (procs @ [(pid, proc)])"
    from n have k: "k \<noteq> ID c" and "map_of running k = None"
      by (auto simp: update_conv' split: if_splits)
    with acc have "\<forall>e \<in> set procs. \<not> member k (snd e)"
      by (simp add: accounted_def)
    with e k o show "\<not> member k (snd e)"
      by auto
  next
    fix k x assume r: "map_of (AList.update (ID c) ?cached running) k = Some x"
    show "\<exists>e \<in> set (procs @ [(pid, proc)]). member k (snd e)"
    proof (cases "k = ID c")
      case True
      with m show ?thesis by simp
    next
      case False
      with r have "map_of running k = Some x"
        by (simp add: update_conv')
      with acc have "\<exists>e \<in> set procs. member k (snd e)"
        unfolding accounted_def by blast
      then show ?thesis by auto
    qed
  qed
qed

lemma scanProc_accounted:
  assumes "accountedScan st" and fresh: "proc_PID p \<notin> fst ` set (procsRunning st)"
  shows "accountedScan (scanProc C V st p)"
proof (cases "snd (updateProcessCache (ri st) p)")
  case (Inl err)
  have "containerCache (ri (scanProc C V st p)) = containerCache (ri st)"
    "containersRunning (scanProc C V st p) = containersRunning st"
    using scanProc_containers [of C V st p] by (simp_all add: Inl)
  moreover have "vmCache (ri (scanProc C V st p)) = vmCache (ri st)"
    "vmsRunning (scanProc C V st p) = vmsRunning st"
    using scanProc_vms [of C V st p] by (simp_all add: Inl)
  moreover have "procsRunning (scanProc C V st p) = procsRunning st"
    by (simp add: scanProc_procsRunning_fresh [OF fresh] Inl)
  ultimately show ?thesis
    using assms(1) by (simp add: accountedScan_def)
next
  case (Inr proc)
  have pr: "procsRunning (scanProc C V st p) = AList.update (proc_PID p) proc (procsRunning st)"
    by (simp add: scanProc_procsRunning_fresh [OF fresh] Inr)
  from assms(1) have ac: "accounted inContainer (containerCache (ri st)) (containersRunning st)
      (procsRunning st)"
    and av: "accounted inVM (vmCache (ri st)) (vmsRunning st) (procsRunning st)"
    by (simp_all add: accountedScan_def)
  show ?thesis
  proof (cases "Container proc")
    case (Some c)
    have cs: "(containerCache (ri (scanProc C V st p)), containersRunning (scanProc C V st p)) =
          ownerUpdate C (containerCache (ri st)) (containersRunning st) c (CPUTimeDelta proc)"
      using scanProc_containers [of C V st p] by (simp add: Inr Some)
    have vs: "vmCache (ri (scanProc C V st p)) = vmCache (ri st)"
      "vmsRunning (scanProc C V st p) = vmsRunning st"
      using scanProc_vms [of C V st p] by (simp_all add: Inr Some)
    have "accounted inContainer (fst (ownerUpdate C (containerCache (ri st)) (containersRunning st) c
              (CPUTimeDelta proc)))
            (snd (ownerUpdate C (containerCache (ri st)) (containersRunning st) c (CPUTimeDelta proc)))
            (AList.update (proc_PID p) proc (procsRunning st))"
      using ac fresh by (rule accounted_member) (simp_all add: inContainer_def Some)
    then have 1: "accounted inContainer (containerCache (ri (scanProc C V st p)))
        (containersRunning (scanProc C V st p)) (procsRunning (scanProc C V st p))"
      by (simp add: cs [symmetric] pr)
    have "accounted inVM (vmCache (ri st)) (vmsRunning st)
            (AList.update (proc_PID p) proc (procsRunning st))"
      using av fresh by (rule accounted_other) (simp add: inVM_def Some)
    then have 2: "accounted inVM (vmCache (ri (scanProc C V st p))) (vmsRunning (scanProc C V st p))
        (procsRunning (scanProc C V st p))"
      by (simp add: vs pr)
    from 1 2 show ?thesis by (simp add: accountedScan_def)
  next
    case None
    have cs: "containerCache (ri (scanProc C V st p)) = containerCache (ri st)"
      "containersRunning (scanProc C V st p) = containersRunning st"
      using scanProc_containers [of C V st p] by (simp_all add: Inr None)
    have "accounted inContainer (containerCache (ri st)) (containersRunning st)
            (AList.update (proc_PID p) proc (procsRunning st))"
      using ac fresh by (rule accounted_other) (simp add: inContainer_def None)
    then have 1: "accounted inContainer (containerCache (ri (scanProc C V st p)))
        (containersRunning (scanProc C V st p)) (procsRunning (scanProc C V st p))"
      by (simp add: cs pr)
    have 2: "accounted inVM (vmCache (ri (scanProc C V st p))) (vmsRunning (scanProc C V st p))
        (procsRunning (scanProc C V st p))"
    proof (cases "VirtualMachine proc")
      case vNone: None
      have vs: "vmCache (ri (scanProc C V st p)) = vmCache (ri st)"
        "vmsRunning (scanProc C V st p) = vmsRunning st"
        using scanProc_vms [of C V st p] by (simp_all add: Inr None vNone)
      have "accounted inVM (vmCache (ri st)) (vmsRunning st)
              (AList.update (proc_PID p) proc (procsRunning st))"
        using av fresh by (rule accounted_other) (simp add: inVM_def vNone)
      then show ?thesis by (simp add: vs pr)
    next
      case (Some vm)
      have vs: "(vmCache (ri (scanProc C V st p)), vmsRunning (scanProc C V st p)) =
          ownerUpdate V (vmCache (ri st)) (vmsRunning st) vm (CPUTimeDelta proc)"
        using scanProc_vms [of C V st p] by (simp add: Inr None Some)
      have "accounted inVM (fst (ownerUpdate V (vmCache (ri st)) (vmsRunning st) vm (CPUTimeDelta proc)))
            (snd (ownerUpdate V (vmCache (ri st)) (vmsRunning st) vm (CPUTimeDelta proc)))
            (AList.update (proc_PID p) proc (procsRunning st))"
        using av fresh by (rule accounted_member) (simp_all add: inVM_def None Some)
      then show ?thesis by (simp add: vs [symmetric] pr)
    qed
    from 1 2 show ?thesis by (simp add: accountedScan_def)
  qed
qed

lemma scanProc_fold_accounted:
  assumes "distinct (map proc_PID procs)"
    and "\<forall>q \<in> set procs. proc_PID q \<notin> fst ` set (procsRunning st)"
    and "accountedScan st"
  shows "accountedScan (foldl (scanProc C V) st procs)"
  using assms
proof (induction procs arbitrary: st)
  case Nil
  then show ?case by simp
next
  case (Cons p procs)
  from Cons.prems have fresh: "proc_PID p \<notin> fst ` set (procsRunning st)"
    by simp
  have a: "accountedScan (scanProc C V st p)"
    using Cons.prems(3) fresh by (rule scanProc_accounted)
  have f: "\<forall>q \<in> set procs. proc_PID q \<notin> fst ` set (procsRunning (scanProc C V st p))"
  proof
    fix q assume q: "q \<in> set procs"
    from Cons.prems(1) have "proc_PID p \<notin> proc_PID ` set procs"
      by simp
    with q have "proc_PID q \<noteq> proc_PID p"
      by (metis imageI)
    moreover from q Cons.prems(2) have "proc_PID q \<notin> fst ` set (procsRunning st)"
      by simp
    ultimately have "proc_PID q \<noteq> proc_PID p" "proc_PID q \<notin> fst ` set (procsRunning st)"
      by simp_all
    with scanProc_procsRunning_keys [of C V st p]
    show "proc_PID q \<notin> fst ` set (procsRunning (scanProc C V st p))"
      by auto
  qed
  from Cons.prems(1) have "distinct (map proc_PID procs)" by simp
  from Cons.IH [OF this f a] show ?case by simp
qed


text \<open>
  Claim C5. After a cycle the running containers are the containers that have a member
  among the running processes, and the CPU-time delta of a running container is the sum of
  the CPU-time deltas that its member processes have in this cycle, whatever the delta of
  the container was before: the delta is set to zero when the container is met first in
  the cycle (it is not in the running map yet) and each member adds its delta once. The
  same holds of the VMs. The process table lists a PID once. The witness is the scenario of
  the spec, two members with 0.4 s and 0.6 s and a delta of 7 s before giving 1 s, next to
  a VM whose one process adds 2 s after a delta of 9 s.
\<close>

theorem Refresh_owner_CPUTimeDelta:
  assumes "distinct (map proc_PID procs)"
  shows "(\<forall>cid. (\<exists>c. map_of (Running (containers (snd (Refresh C V s (Inr procs))))) cid = Some c) \<longleftrightarrow>
            (\<exists>e \<in> set (Running (processes (snd (Refresh C V s (Inr procs))))).
               inContainer cid (snd e))) \<and>
         (\<forall>cid c. map_of (Running (containers (snd (Refresh C V s (Inr procs))))) cid = Some c \<longrightarrow>
            CPUTimeDelta c =
            memberCPUTimeDelta (inContainer cid) (Running (processes (snd (Refresh C V s (Inr procs)))))) \<and>
         (\<forall>vid. (\<exists>vm. map_of (Running (vms (snd (Refresh C V s (Inr procs))))) vid = Some vm) \<longleftrightarrow>
            (\<exists>e \<in> set (Running (processes (snd (Refresh C V s (Inr procs))))).
               inVM vid (snd e))) \<and>
         (\<forall>vid vm. map_of (Running (vms (snd (Refresh C V s (Inr procs))))) vid = Some vm \<longrightarrow>
            CPUTimeDelta vm =
            memberCPUTimeDelta (inVM vid) (Running (processes (snd (Refresh C V s (Inr procs))))))"
proof -
  let ?st = "scanProcs C V s procs"
  have "accountedScan ?st"
    unfolding scanProcs_def using assms
    by (rule scanProc_fold_accounted) (simp_all add: accountedScan_def accounted_def)
  then have c: "accounted inContainer (containerCache (ri ?st)) (containersRunning ?st)
      (procsRunning ?st)"
    and v: "accounted inVM (vmCache (ri ?st)) (vmsRunning ?st) (procsRunning ?st)"
    by (simp_all add: accountedScan_def)
  have owners: "(\<forall>k. (\<exists>x. map_of running k = Some x) \<longleftrightarrow> (\<exists>e \<in> set rp. member k (snd e))) \<and>
      (\<forall>k x. map_of running k = Some x \<longrightarrow> CPUTimeDelta x = memberCPUTimeDelta (member k) rp)"
    if a: "accounted member cache running rp"
    for member and cache running :: "(string \<times> 'a Workload_scheme) list" and rp
  proof (intro conjI allI impI iffI)
    fix k assume "\<exists>x. map_of running k = Some x"
    with a show "\<exists>e \<in> set rp. member k (snd e)"
      unfolding accounted_def by blast
  next
    fix k assume e: "\<exists>e \<in> set rp. member k (snd e)"
    show "\<exists>x. map_of running k = Some x"
    proof (cases "map_of running k")
      case None
      with a have "\<forall>e \<in> set rp. \<not> member k (snd e)"
        unfolding accounted_def by blast
      with e show ?thesis by blast
    next
      case (Some x)
      then show ?thesis by blast
    qed
  next
    fix k x assume "map_of running k = Some x"
    with a show "CPUTimeDelta x = memberCPUTimeDelta (member k) rp"
      unfolding accounted_def by blast
  qed
  from owners [OF c] owners [OF v] show ?thesis
    by (simp add: Refresh_containers Refresh_vms Refresh_processes)
qed

theorem Refresh_owner_CPUTimeDelta_witness:
  "distinct (map proc_PID tableEx) \<and>
   map_of (containerCache informerEx) ''c1'' = Some (webEx\<lparr>CPUTotalTime := 30, CPUTimeDelta := 7\<rparr>) \<and>
   map_of (vmCache informerEx) ''vm1'' = Some (guestEx\<lparr>CPUTotalTime := 100, CPUTimeDelta := 9\<rparr>) \<and>
   Running (containers (snd (Refresh (\<lambda>c. c) (\<lambda>v. v) informerEx (Inr tableEx)))) =
     [(''c1'', webEx\<lparr>CPUTotalTime := 31, CPUTimeDelta := 1\<rparr>)] \<and>
   memberCPUTimeDelta (inContainer ''c1'')
     (Running (processes (snd (Refresh (\<lambda>c. c) (\<lambda>v. v) informerEx (Inr tableEx))))) = 4 / 10 + 6 / 10 \<and>
   CPUTimeDelta (webEx\<lparr>CPUTotalTime := 31, CPUTimeDelta := 1\<rparr>) =
   memberCPUTimeDelta (inContainer ''c1'')
     (Running (processes (snd (Refresh (\<lambda>c. c) (\<lambda>v. v) informerEx (Inr tableEx))))) \<and>
   inVM ''vm1'' (qemuEx 102 2) \<and>
   (21, qemuEx 102 2) \<in> set (Running (processes (snd (Refresh (\<lambda>c. c) (\<lambda>v. v) informerEx
      (Inr tableEx))))) \<and>
   Running (vms (snd (Refresh (\<lambda>c. c) (\<lambda>v. v) informerEx (Inr tableEx)))) =
     [(''vm1'', guestEx\<lparr>CPUTotalTime := 102, CPUTimeDelta := 2\<rparr>)] \<and>
   memberCPUTimeDelta (inVM ''vm1'')
     (Running (processes (snd (Refresh (\<lambda>c. c) (\<lambda>v. v) informerEx (Inr tableEx))))) = 2 \<and>
   CPUTimeDelta (guestEx\<lparr>CPUTotalTime := 102, CPUTimeDelta := 2\<rparr>) =
   memberCPUTimeDelta (inVM ''vm1'')
     (Running (processes (snd (Refresh (\<lambda>c. c) (\<lambda>v. v) informerEx (Inr tableEx)))))"
proof -
  let ?s = "snd (Refresh (\<lambda>c. c) (\<lambda>v. v) informerEx (Inr tableEx))"
  have d: "distinct (map proc_PID tableEx)"
    by (simp add: tableEx_def readingEx_def qemuReadingEx_def)
  have c: "map_of (containerCache informerEx) ''c1'' =
      Some (webEx\<lparr>CPUTotalTime := 30, CPUTimeDelta := 7\<rparr>)"
    and v: "map_of (vmCache informerEx) ''vm1'' =
      Some (guestEx\<lparr>CPUTotalTime := 100, CPUTimeDelta := 9\<rparr>)"
    by (simp_all add: informerEx_def)
  have rc: "Running (containers ?s) = [(''c1'', webEx\<lparr>CPUTotalTime := 31, CPUTimeDelta := 1\<rparr>)]"
    and rv: "Running (vms ?s) = [(''vm1'', guestEx\<lparr>CPUTotalTime := 102, CPUTimeDelta := 2\<rparr>)]"
    and rp: "(21, qemuEx 102 2) \<in> set (Running (processes ?s))"
    by (simp_all add: Refresh_tableEx)
  have mc: "memberCPUTimeDelta (inContainer ''c1'') (Running (processes ?s)) = 4 / 10 + 6 / 10"
    by (simp add: Refresh_tableEx memberCPUTimeDelta_def inContainer_def workerEx_def webEx_def
        qemuEx_def)
  have mv: "memberCPUTimeDelta (inVM ''vm1'') (Running (processes ?s)) = 2"
    by (simp add: Refresh_tableEx memberCPUTimeDelta_def inVM_def workerEx_def qemuEx_def
        guestEx_def)
  have iv: "inVM ''vm1'' (qemuEx 102 2)"
    by (simp add: inVM_def qemuEx_def guestEx_def)
  note t = Refresh_owner_CPUTimeDelta [OF d, of "\<lambda>c. c" "\<lambda>v. v" informerEx]
  have "map_of (Running (containers ?s)) ''c1'' = Some (webEx\<lparr>CPUTotalTime := 31, CPUTimeDelta := 1\<rparr>)"
    by (simp add: rc)
  with t have ec: "CPUTimeDelta (webEx\<lparr>CPUTotalTime := 31, CPUTimeDelta := 1\<rparr>) =
      memberCPUTimeDelta (inContainer ''c1'') (Running (processes ?s))"
    by blast
  have "map_of (Running (vms ?s)) ''vm1'' = Some (guestEx\<lparr>CPUTotalTime := 102, CPUTimeDelta := 2\<rparr>)"
    by (simp add: rv)
  with t have ev: "CPUTimeDelta (guestEx\<lparr>CPUTotalTime := 102, CPUTimeDelta := 2\<rparr>) =
      memberCPUTimeDelta (inVM ''vm1'') (Running (processes ?s))"
    by blast
  from d c v rc mc ec iv rp rv mv ev show ?thesis
    by blast
qed

subsection \<open>A process whose fields cannot be read\<close>

lemma scanProcs_not_cached:
  assumes "distinct (map proc_PID procs)" and "p \<in> set procs" and "isl (newProcess p)"
    and "proc_PID p \<notin> fst ` set (procCache (ri st))"
  shows "proc_PID p \<notin> fst ` set (procCache (ri (foldl (scanProc C V) st procs)))"
proof
  assume "proc_PID p \<in> fst ` set (procCache (ri (foldl (scanProc C V) st procs)))"
  with assms(4) obtain q where q: "q \<in> set procs" "proc_PID q = proc_PID p" "\<not> isl (newProcess q)"
    unfolding scanProc_fold_cache_keys by auto
  from assms(1) have "inj_on proc_PID (set procs)"
    by (simp add: distinct_map)
  with q(1,2) assms(2) have "q = p"
    by (auto dest: inj_onD)
  with q(3) assms(3) show False by simp
qed

lemma Refresh_new_process_fails:
  assumes "distinct (map proc_PID procs)" and "p \<in> set procs" and "isl (newProcess p)"
    and "proc_PID p \<notin> fst ` set (procCache s)"
  shows "proc_PID p \<notin> fst ` set (procCache (snd (Refresh C V s (Inr procs))))"
    and "proc_PID p \<notin> fst ` set (Running (processes (snd (Refresh C V s (Inr procs)))))"
    and "proc_PID p \<notin> fst ` set (Terminated (processes (snd (Refresh C V s (Inr procs)))))"
proof -
  let ?st = "scanProcs C V s procs"
  have nc: "proc_PID p \<notin> fst ` set (procCache (ri ?st))"
    unfolding scanProcs_def using assms by (intro scanProcs_not_cached) simp_all
  have "dom (map_of (procsRunning ?st)) \<subseteq> dom (map_of (procCache (ri ?st)))"
    by (rule map_le_implies_dom_le) (rule scanProcs_agree)
  then have sub: "fst ` set (procsRunning ?st) \<subseteq> fst ` set (procCache (ri ?st))"
    by (simp add: dom_map_of_conv_image_fst)
  from nc show "proc_PID p \<notin> fst ` set (procCache (snd (Refresh C V s (Inr procs))))"
    by (auto simp: Refresh_procCache sweep_cache)
  from nc sub show "proc_PID p \<notin> fst ` set (Running (processes (snd (Refresh C V s (Inr procs)))))"
    by (auto simp: Refresh_processes)
  from nc show "proc_PID p \<notin> fst ` set (Terminated (processes (snd (Refresh C V s (Inr procs)))))"
    by (auto simp: Refresh_processes sweep_terminated_keys)
qed


text \<open>
  Claim C10. When a process that is not cached is listed in the process table and reading
  its CPU time, its command name or its executable fails, or its classification returns an
  error, then after \<^verbatim>\<open>Refresh\<close> the process cache has no entry for its PID, and the PID is in
  neither the running nor the terminated set. The process table lists a PID once.
\<close>

theorem Refresh_failed_read_leaves_no_entry:
  assumes "p \<in> set procs" and "distinct (map proc_PID procs)"
    and "proc_PID p \<notin> fst ` set (procCache s)"
    and "isl (proc_CPUTime p) \<or> isl (proc_Comm p) \<or> isl (proc_Executable p) \<or>
         isl (computeTypeInfoFromProc p)"
  shows "proc_PID p \<notin> fst ` set (procCache (snd (Refresh C V s (Inr procs)))) \<and>
         proc_PID p \<notin> fst ` set (Running (processes (snd (Refresh C V s (Inr procs))))) \<and>
         proc_PID p \<notin> fst ` set (Terminated (processes (snd (Refresh C V s (Inr procs)))))"
proof -
  from assms(4) have "isl (newProcess p)"
    by (simp add: newProcess_fails_iff)
  from Refresh_new_process_fails [OF assms(2) assms(1) this assms(3)] show ?thesis
    by simp
qed


theorem Refresh_failed_read_leaves_no_entry_witness:
  "procGone \<in> set [procNew, procGone] \<and> distinct (map proc_PID [procNew, procGone]) \<and>
   proc_PID procGone = 2 \<and> 2 \<notin> fst ` set (procCache NewInformer) \<and>
   isl (proc_Comm procGone) \<and>
   2 \<notin> fst ` set (procCache (snd (Refresh (\<lambda>c. c) (\<lambda>v. v) NewInformer
          (Inr [procNew, procGone])))) \<and>
   2 \<notin> fst ` set (Running (processes (snd (Refresh (\<lambda>c. c) (\<lambda>v. v) NewInformer
          (Inr [procNew, procGone]))))) \<and>
   2 \<notin> fst ` set (Terminated (processes (snd (Refresh (\<lambda>c. c) (\<lambda>v. v) NewInformer
          (Inr [procNew, procGone])))))"
proof -
  have m: "procGone \<in> set [procNew, procGone]"
    by simp
  have d: "distinct (map proc_PID [procNew, procGone])"
    by (simp add: procNew_def procGone_def)
  have p: "proc_PID procGone = 2"
    by (simp add: procGone_def)
  have c: "proc_PID procGone \<notin> fst ` set (procCache NewInformer)"
    by (simp add: NewInformer_def)
  have f: "isl (proc_Comm procGone)"
    by (simp add: procGone_def)
  then have f': "isl (proc_CPUTime procGone) \<or> isl (proc_Comm procGone) \<or>
      isl (proc_Executable procGone) \<or> isl (computeTypeInfoFromProc procGone)"
    by simp
  from Refresh_failed_read_leaves_no_entry [OF m d c f', of "\<lambda>c. c" "\<lambda>v. v"] m d p c f
  show ?thesis
    by simp
qed

subsection \<open>A process whose classification fails\<close>

lemma occursIn_refl: "occursIn e e"
  by (cases e) simp_all

lemma surfaced_Join:
  "surfaced e r \<or> occursIn e err \<Longrightarrow> surfaced e (errors_Join [r, Some err])"
  by (cases r) (auto simp: surfaced_def errors_Join_def nonNil_def)

lemma scanProc_surfaced:
  "surfaced e (refreshErrs st) \<Longrightarrow> surfaced e (refreshErrs (scanProc C V st q))"
  by (auto simp: scanProc_refreshErrs surfaced_Join split: sum.splits)


text \<open>
  A process enters the cache classified, and \<^verbatim>\<open>populateProcessFields\<close> keeps the type of a
  classified process: no cached process has the type \<open>UnknownProcess\<close>, and the classifiers
  run for processes that are not cached only.
\<close>

lemma newProcess_classified:
  "newProcess p = Inr newProc \<Longrightarrow> Type newProc \<noteq> UnknownProcess"
  by (auto simp: newProcess_def populateProcessFields_def computeTypeInfoFromProc_def Let_def
      split: sum.splits option.splits if_splits)

lemma populateProcessFields_classified:
  "Type cached \<noteq> UnknownProcess \<Longrightarrow> Type (fst (populateProcessFields cached p)) = Type cached"
  by (auto simp: populateProcessFields_def Let_def split: sum.splits)

lemma updateProcessCache_classified:
  assumes "\<forall>e \<in> set (procCache s). Type (snd e) \<noteq> UnknownProcess"
  shows "\<forall>e \<in> set (procCache (fst (updateProcessCache s p))). Type (snd e) \<noteq> UnknownProcess"
proof (cases "map_of (procCache s) (proc_PID p)")
  case None
  with assms show ?thesis
    by (auto simp: updateProcessCache_new update_absent map_of_eq_None_iff
        dest: newProcess_classified split: sum.splits)
next
  case (Some cached)
  then have "(proc_PID p, cached) \<in> set (procCache s)"
    by (rule map_of_SomeD)
  with assms have t: "Type cached \<noteq> UnknownProcess"
    by auto
  have "set (AList.update k v al) \<subseteq> insert (k, v) (set al)" for k and v :: Process and al
    by (induction al) auto
  with assms t populateProcessFields_classified [OF t, of p] Some show ?thesis
    by (fastforce simp: updateProcessCache_def Let_def split: prod.splits)
qed

lemma Refresh_classified:
  assumes "\<forall>e \<in> set (procCache s). Type (snd e) \<noteq> UnknownProcess"
  shows "\<forall>e \<in> set (procCache (snd (Refresh C V s (Inr procs)))). Type (snd e) \<noteq> UnknownProcess"
proof -
  have "\<forall>e \<in> set (procCache (ri (scanProcs C V s procs))). Type (snd e) \<noteq> UnknownProcess"
    unfolding scanProcs_def
    by (rule foldl_invariant) (simp_all add: assms scanProc_procCache updateProcessCache_classified)
  then show ?thesis
    by (simp add: Refresh_procCache sweep_cache)
qed

text \<open>
  Claim C8, as the code has it. When the two classifiers of a process return errors (the
  process is not cached, and its CPU time, command name and executable have been read),
  the error that \<^verbatim>\<open>Refresh\<close> returns has in it the join of the two errors, wrapped as a failure
  to detect the process type. The process gets no entry in the process cache and is not in
  the running set: it is dropped from this cycle, not kept as a process of unknown type.
  In the next cycle \<^verbatim>\<open>updateProcessCache\<close> finds no entry for the PID and makes the process
  anew, which classifies it again. The process table lists a PID once.
\<close>

theorem Refresh_classification_fails:
  assumes "p \<in> set procs" and "distinct (map proc_PID procs)"
    and "proc_PID p \<notin> fst ` set (procCache s)"
    and "\<not> isl (proc_CPUTime p)" and "\<not> isl (proc_Comm p)" and "\<not> isl (proc_Executable p)"
    and "containerInfoFromProc p = Inl e1" and "vmInfoFromProc p = Inl e2"
  shows "surfaced (wrapError ''failed to detect process type'' (joinError [e1, e2]))
           (fst (Refresh C V s (Inr procs))) \<and>
         proc_PID p \<notin> fst ` set (procCache (snd (Refresh C V s (Inr procs)))) \<and>
         proc_PID p \<notin> fst ` set (Running (processes (snd (Refresh C V s (Inr procs))))) \<and>
         (\<forall>p'. proc_PID p' = proc_PID p \<longrightarrow>
            snd (updateProcessCache (snd (Refresh C V s (Inr procs))) p') = newProcess p')"
proof -
  let ?e = "wrapError ''failed to detect process type'' (joinError [e1, e2])"
  let ?init = "\<lparr>ri = s, procsRunning = [], containersRunning = [], vmsRunning = [],
       refreshErrs = None\<rparr>"
  have np: "newProcess p = Inl ?e"
    using assms(4-8) by (rule classification_fails)
  then have f: "isl (newProcess p)" by simp
  note gone = Refresh_new_process_fails [OF assms(2) assms(1) f assms(3)]
  from assms(1) obtain xs ys where split: "procs = xs @ p # ys"
    by (auto simp: in_set_conv_decomp)
  let ?st1 = "foldl (scanProc C V) ?init xs"
  from assms(2) have dx: "distinct (map proc_PID (xs @ [p]))"
    by (simp add: split)
  have "proc_PID p \<notin> fst ` set (procCache (ri (foldl (scanProc C V) ?init (xs @ [p]))))"
    using dx f assms(3) by (intro scanProcs_not_cached) simp_all
  then have "proc_PID p \<notin> fst ` set (procCache (ri ?st1))"
    unfolding scanProc_fold_cache_keys by auto
  then have "map_of (procCache (ri ?st1)) (proc_PID p) = None"
    by (simp add: map_of_eq_None_iff)
  then have "updateProcessCache (ri ?st1) p = (ri ?st1, Inl ?e)"
    by (simp add: updateProcessCache_new np)
  then have "surfaced ?e (refreshErrs (scanProc C V ?st1 p))"
    by (simp add: scanProc_refreshErrs surfaced_Join occursIn_refl)
  then have "surfaced ?e (refreshErrs (foldl (scanProc C V) (scanProc C V ?st1 p) ys))"
    by (rule foldl_invariant) (rule scanProc_surfaced)
  then have 1: "surfaced ?e (fst (Refresh C V s (Inr procs)))"
    by (simp add: Refresh_fst scanProcs_def split)
  have 4: "snd (updateProcessCache (snd (Refresh C V s (Inr procs))) p') = newProcess p'"
    if "proc_PID p' = proc_PID p" for p'
  proof -
    from gone(1) that have "map_of (procCache (snd (Refresh C V s (Inr procs)))) (proc_PID p') = None"
      by (simp add: map_of_eq_None_iff)
    then show ?thesis
      by (simp add: updateProcessCache_new split: sum.splits)
  qed
  from 1 gone(1,2) 4 show ?thesis by blast
qed


theorem Refresh_classification_fails_witness:
  "procBad \<in> set [procNew, procBad] \<and> distinct (map proc_PID [procNew, procBad]) \<and>
   proc_PID procBad = 1 \<and> 1 \<notin> fst ` set (procCache NewInformer) \<and>
   surfaced (wrapError ''failed to detect process type''
               (joinError [errorString ''cgroup'', errorString ''cmdline'']))
     (fst (Refresh (\<lambda>c. c) (\<lambda>v. v) NewInformer (Inr [procNew, procBad]))) \<and>
   1 \<notin> fst ` set (procCache (snd (Refresh (\<lambda>c. c) (\<lambda>v. v) NewInformer
          (Inr [procNew, procBad])))) \<and>
   1 \<notin> fst ` set (Running (processes (snd (Refresh (\<lambda>c. c) (\<lambda>v. v) NewInformer
          (Inr [procNew, procBad]))))) \<and>
   snd (updateProcessCache (snd (Refresh (\<lambda>c. c) (\<lambda>v. v) NewInformer (Inr [procNew, procBad])))
          procRetry) =
   Inr \<lparr>CPUTotalTime = 6, CPUTimeDelta = 6, PID = 1, Comm = ''sh'', Exe = ''/bin/sh'',
        Type = RegularProcess, Container = None, VirtualMachine = None\<rparr>"
proof -
  have m: "procBad \<in> set [procNew, procBad]"
    by simp
  have d: "distinct (map proc_PID [procNew, procBad])"
    by (simp add: procNew_def procBad_def)
  have p: "proc_PID procBad = 1" "proc_PID procRetry = proc_PID procBad"
    by (simp_all add: procBad_def procRetry_def)
  have c: "proc_PID procBad \<notin> fst ` set (procCache NewInformer)"
    by (simp add: NewInformer_def)
  have r: "\<not> isl (proc_CPUTime procBad)" "\<not> isl (proc_Comm procBad)"
    "\<not> isl (proc_Executable procBad)"
    "containerInfoFromProc procBad = Inl (errorString ''cgroup'')"
    "vmInfoFromProc procBad = Inl (errorString ''cmdline'')"
    by (simp_all add: procBad_def)
  from Refresh_classification_fails [OF m d c r, of "\<lambda>c. c" "\<lambda>v. v"] p(2)
  have "surfaced (wrapError ''failed to detect process type''
               (joinError [errorString ''cgroup'', errorString ''cmdline'']))
     (fst (Refresh (\<lambda>c. c) (\<lambda>v. v) NewInformer (Inr [procNew, procBad])))"
    and "proc_PID procBad \<notin> fst ` set (procCache (snd (Refresh (\<lambda>c. c) (\<lambda>v. v) NewInformer
          (Inr [procNew, procBad]))))"
    and "proc_PID procBad \<notin> fst ` set (Running (processes (snd (Refresh (\<lambda>c. c) (\<lambda>v. v)
          NewInformer (Inr [procNew, procBad])))))"
    and "snd (updateProcessCache (snd (Refresh (\<lambda>c. c) (\<lambda>v. v) NewInformer
          (Inr [procNew, procBad]))) procRetry) = newProcess procRetry"
    by blast+
  with m d p(1) c show ?thesis
    by (simp add: newProcess_procRetry)
qed

text \<open>
  The claim as the spec states it has the process stay in the process cache with the type
  \<open>UnknownProcess\<close>. After a cycle whose table is this one process, \<^verbatim>\<open>Refresh\<close> returns the
  joined error and the process cache is empty.
\<close>

theorem Refresh_classification_fails_drops_process:
  "fst (Refresh (\<lambda>c. c) (\<lambda>v. v) NewInformer (Inr [procBad])) =
     Some (joinError [wrapError ''failed to detect process type''
                        (joinError [errorString ''cgroup'', errorString ''cmdline''])]) \<and>
   procCache (snd (Refresh (\<lambda>c. c) (\<lambda>v. v) NewInformer (Inr [procBad]))) = []"
  unfolding Refresh_procBad by (simp add: NewInformer_def)

subsection \<open>The caches and the published sets\<close>

text \<open>
  Claim C9. After \<^verbatim>\<open>Refresh\<close> has run over a process table, whatever error it returns, the
  process cache holds the PIDs of the published running set and no others, and no PID is
  both in the running and in the terminated set; the same holds of the container cache and
  of the VM cache with their published sets. A call that cannot read the process table
  leaves the informer as it is.
\<close>

theorem Refresh_consistent:
  "consistent (procCache (snd (Refresh C V s (Inr procs)))) (processes (snd (Refresh C V s (Inr procs)))) \<and>
   consistent (containerCache (snd (Refresh C V s (Inr procs))))
     (containers (snd (Refresh C V s (Inr procs)))) \<and>
   consistent (vmCache (snd (Refresh C V s (Inr procs)))) (vms (snd (Refresh C V s (Inr procs)))) \<and>
   snd (Refresh C V s (Inl err)) = s"
  by (simp add: consistent_def Refresh_procCache Refresh_processes Refresh_containerCache
      Refresh_containers Refresh_vmCache Refresh_vms Refresh_Inl
      sweep_consistent [OF scanProcs_agree(1)] sweep_consistent [OF scanProcs_agree(2)]
      sweep_consistent [OF scanProcs_agree(3)])


end
